theory Spec2Isabelle
  imports Main "HOL-Library.Word"
begin

unbundle bit_operations_syntax

section \<open>Bytes, double words and 128-bit registers\<close>

text \<open>
  The AES routines of the package are amd64 assembly (\<open>CnRoundsAsm\<close>,
  \<open>CnSingleRoundAsm\<close>, \<open>CnExpandKeyAsm\<close>). Every instruction they use moves, permutes or
  combines bytes without carries, so an XMM register is modelled as four double words of
  four bytes each, in memory order (the first byte of a double word is the one at the lowest
  address, the least significant one on amd64).
\<close>

type_synonym byte = "8 word"

datatype dword = DW byte byte byte byte

datatype xmm = XMM dword dword dword dword

text \<open>Memory as seen through one pointer: the byte at each offset from that pointer.\<close>

type_synonym memory = "nat \<Rightarrow> byte"

definition dword_bytes :: "dword \<Rightarrow> byte list" where
  "dword_bytes d = (case d of DW a b c e \<Rightarrow> [a, b, c, e])"

definition xmm_bytes :: "xmm \<Rightarrow> byte list" where
  "xmm_bytes x = (case x of XMM a b c e \<Rightarrow>
     dword_bytes a @ dword_bytes b @ dword_bytes c @ dword_bytes e)"

definition load32 :: "memory \<Rightarrow> nat \<Rightarrow> dword" where
  "load32 m p = DW (m p) (m (p + 1)) (m (p + 2)) (m (p + 3))"

text \<open>\<open>MOVOU off(R), X\<close>: load 16 bytes.\<close>

definition MOVOU_load :: "memory \<Rightarrow> nat \<Rightarrow> xmm" where
  "MOVOU_load m p = XMM (load32 m p) (load32 m (p + 4)) (load32 m (p + 8)) (load32 m (p + 12))"

text \<open>\<open>MOVOU X, off(R)\<close>: store 16 bytes; every other byte of memory keeps its value.\<close>

definition MOVOU_store :: "xmm \<Rightarrow> memory \<Rightarrow> nat \<Rightarrow> memory" where
  "MOVOU_store x m p = (\<lambda>a. if p \<le> a \<and> a < p + 16 then xmm_bytes x ! (a - p) else m a)"

fun dxor :: "dword \<Rightarrow> dword \<Rightarrow> dword" where
  "dxor (DW a0 a1 a2 a3) (DW b0 b1 b2 b3) = DW (a0 XOR b0) (a1 XOR b1) (a2 XOR b2) (a3 XOR b3)"

definition dzero :: dword where
  "dzero = DW 0 0 0 0"

text \<open>\<open>PXOR src, dst\<close>.\<close>

fun PXOR :: "xmm \<Rightarrow> xmm \<Rightarrow> xmm" where
  "PXOR (XMM s0 s1 s2 s3) (XMM d0 d1 d2 d3) = XMM (dxor d0 s0) (dxor d1 s1) (dxor d2 s2) (dxor d3 s3)"

text \<open>The double word of a register selected by a two-bit field of an immediate.\<close>

fun lane :: "xmm \<Rightarrow> nat \<Rightarrow> dword" where
  "lane (XMM a b c e) i = (if i = 0 then a else if i = 1 then b else if i = 2 then c else e)"

definition imm_field :: "byte \<Rightarrow> nat \<Rightarrow> nat" where
  "imm_field imm k = unat (drop_bit (2 * k) imm AND 3)"

text \<open>\<open>PSHUFD $imm, src, dst\<close>: each double word of dst is the one of src the immediate selects.\<close>

definition PSHUFD :: "byte \<Rightarrow> xmm \<Rightarrow> xmm" where
  "PSHUFD imm src = XMM (lane src (imm_field imm 0)) (lane src (imm_field imm 1))
                        (lane src (imm_field imm 2)) (lane src (imm_field imm 3))"

text \<open>\<open>SHUFPS $imm, src, dst\<close>: the low two double words come from dst, the high two from src.\<close>

definition SHUFPS :: "byte \<Rightarrow> xmm \<Rightarrow> xmm \<Rightarrow> xmm" where
  "SHUFPS imm src dst = XMM (lane dst (imm_field imm 0)) (lane dst (imm_field imm 1))
                            (lane src (imm_field imm 2)) (lane src (imm_field imm 3))"

section \<open>The AES transformations\<close>

definition sbox_table :: "byte list" where
  "sbox_table =
    [0x63, 0x7c, 0x77, 0x7b, 0xf2, 0x6b, 0x6f, 0xc5, 0x30, 0x01, 0x67, 0x2b, 0xfe, 0xd7, 0xab, 0x76,
     0xca, 0x82, 0xc9, 0x7d, 0xfa, 0x59, 0x47, 0xf0, 0xad, 0xd4, 0xa2, 0xaf, 0x9c, 0xa4, 0x72, 0xc0,
     0xb7, 0xfd, 0x93, 0x26, 0x36, 0x3f, 0xf7, 0xcc, 0x34, 0xa5, 0xe5, 0xf1, 0x71, 0xd8, 0x31, 0x15,
     0x04, 0xc7, 0x23, 0xc3, 0x18, 0x96, 0x05, 0x9a, 0x07, 0x12, 0x80, 0xe2, 0xeb, 0x27, 0xb2, 0x75,
     0x09, 0x83, 0x2c, 0x1a, 0x1b, 0x6e, 0x5a, 0xa0, 0x52, 0x3b, 0xd6, 0xb3, 0x29, 0xe3, 0x2f, 0x84,
     0x53, 0xd1, 0x00, 0xed, 0x20, 0xfc, 0xb1, 0x5b, 0x6a, 0xcb, 0xbe, 0x39, 0x4a, 0x4c, 0x58, 0xcf,
     0xd0, 0xef, 0xaa, 0xfb, 0x43, 0x4d, 0x33, 0x85, 0x45, 0xf9, 0x02, 0x7f, 0x50, 0x3c, 0x9f, 0xa8,
     0x51, 0xa3, 0x40, 0x8f, 0x92, 0x9d, 0x38, 0xf5, 0xbc, 0xb6, 0xda, 0x21, 0x10, 0xff, 0xf3, 0xd2,
     0xcd, 0x0c, 0x13, 0xec, 0x5f, 0x97, 0x44, 0x17, 0xc4, 0xa7, 0x7e, 0x3d, 0x64, 0x5d, 0x19, 0x73,
     0x60, 0x81, 0x4f, 0xdc, 0x22, 0x2a, 0x90, 0x88, 0x46, 0xee, 0xb8, 0x14, 0xde, 0x5e, 0x0b, 0xdb,
     0xe0, 0x32, 0x3a, 0x0a, 0x49, 0x06, 0x24, 0x5c, 0xc2, 0xd3, 0xac, 0x62, 0x91, 0x95, 0xe4, 0x79,
     0xe7, 0xc8, 0x37, 0x6d, 0x8d, 0xd5, 0x4e, 0xa9, 0x6c, 0x56, 0xf4, 0xea, 0x65, 0x7a, 0xae, 0x08,
     0xba, 0x78, 0x25, 0x2e, 0x1c, 0xa6, 0xb4, 0xc6, 0xe8, 0xdd, 0x74, 0x1f, 0x4b, 0xbd, 0x8b, 0x8a,
     0x70, 0x3e, 0xb5, 0x66, 0x48, 0x03, 0xf6, 0x0e, 0x61, 0x35, 0x57, 0xb9, 0x86, 0xc1, 0x1d, 0x9e,
     0xe1, 0xf8, 0x98, 0x11, 0x69, 0xd9, 0x8e, 0x94, 0x9b, 0x1e, 0x87, 0xe9, 0xce, 0x55, 0x28, 0xdf,
     0x8c, 0xa1, 0x89, 0x0d, 0xbf, 0xe6, 0x42, 0x68, 0x41, 0x99, 0x2d, 0x0f, 0xb0, 0x54, 0xbb, 0x16]"

definition sbox :: "byte \<Rightarrow> byte" where
  "sbox b = sbox_table ! unat b"

fun SubWord :: "dword \<Rightarrow> dword" where
  "SubWord (DW a b c e) = DW (sbox a) (sbox b) (sbox c) (sbox e)"

text \<open>Rotation of a double word by one byte: the second byte in memory becomes the first.\<close>

fun RotWord :: "dword \<Rightarrow> dword" where
  "RotWord (DW a b c e) = DW b c e a"

fun SubBytes :: "xmm \<Rightarrow> xmm" where
  "SubBytes (XMM a b c e) = XMM (SubWord a) (SubWord b) (SubWord c) (SubWord e)"

text \<open>
  The AES state is held column by column: double word \<open>c\<close> of the register is column \<open>c\<close>,
  its byte \<open>r\<close> is row \<open>r\<close>. ShiftRows rotates row \<open>r\<close> by \<open>r\<close> columns.
\<close>

fun ShiftRows :: "xmm \<Rightarrow> xmm" where
  "ShiftRows (XMM (DW a0 a1 a2 a3) (DW b0 b1 b2 b3) (DW c0 c1 c2 c3) (DW e0 e1 e2 e3)) =
     XMM (DW a0 b1 c2 e3) (DW b0 c1 e2 a3) (DW c0 e1 a2 b3) (DW e0 a1 b2 c3)"

text \<open>Multiplication by \<open>x\<close> in GF(2^8) modulo \<open>x^8 + x^4 + x^3 + x + 1\<close>.\<close>

definition xtime :: "byte \<Rightarrow> byte" where
  "xtime b = push_bit 1 b XOR (if bit b 7 then 0x1b else 0)"

fun MixColumn :: "dword \<Rightarrow> dword" where
  "MixColumn (DW s0 s1 s2 s3) =
     DW (xtime s0 XOR (xtime s1 XOR s1) XOR s2 XOR s3)
        (s0 XOR xtime s1 XOR (xtime s2 XOR s2) XOR s3)
        (s0 XOR s1 XOR xtime s2 XOR (xtime s3 XOR s3))
        ((xtime s0 XOR s0) XOR s1 XOR s2 XOR xtime s3)"

fun MixColumns :: "xmm \<Rightarrow> xmm" where
  "MixColumns (XMM a b c e) = XMM (MixColumn a) (MixColumn b) (MixColumn c) (MixColumn e)"

text \<open>
  \<open>AESENC key, state\<close>, as the processor manual gives it: ShiftRows, SubBytes, MixColumns,
  then XOR with the round key.
\<close>

definition AESENC :: "xmm \<Rightarrow> xmm \<Rightarrow> xmm" where
  "AESENC rk st = PXOR rk (MixColumns (SubBytes (ShiftRows st)))"

text \<open>
  \<open>AESKEYGENASSIST $imm, src, dst\<close>, as the processor manual gives it, with \<open>X1\<close> and \<open>X3\<close>
  the second and fourth double words of src and RCON the zero-extended immediate.
\<close>

definition AESKEYGENASSIST :: "byte \<Rightarrow> xmm \<Rightarrow> xmm" where
  "AESKEYGENASSIST imm src =
     (let x1 = lane src 1; x3 = lane src 3; rcon = DW imm 0 0 0
      in XMM (SubWord x1) (dxor (RotWord (SubWord x1)) rcon)
             (SubWord x3) (dxor (RotWord (SubWord x3)) rcon))"

section \<open>The assembly routines\<close>

text \<open>
  \<open>CnRoundsAsm(dst, src *uint64, rkeys *uint32)\<close>. Each pointer is modelled by the memory it
  points into; the result is the memory behind \<open>dst\<close>. All loads happen before the one
  store, so the result is the same when \<open>dst\<close> and \<open>src\<close> are one pointer, as in \<open>Cache.Sum\<close>.
\<close>

definition CnRoundsAsm :: "memory \<Rightarrow> memory \<Rightarrow> memory \<Rightarrow> memory" where
  "CnRoundsAsm dst src rkeys =
     (let x0 = MOVOU_load src 0;
          x1 = MOVOU_load rkeys 0;
          x0 = AESENC x1 x0;
          x1 = MOVOU_load rkeys 16;
          x0 = AESENC x1 x0;
          x1 = MOVOU_load rkeys 32;
          x0 = AESENC x1 x0;
          x1 = MOVOU_load rkeys 48;
          x0 = AESENC x1 x0;
          x1 = MOVOU_load rkeys 64;
          x0 = AESENC x1 x0;
          x1 = MOVOU_load rkeys 80;
          x0 = AESENC x1 x0;
          x1 = MOVOU_load rkeys 96;
          x0 = AESENC x1 x0;
          x1 = MOVOU_load rkeys 112;
          x0 = AESENC x1 x0;
          x1 = MOVOU_load rkeys 128;
          x0 = AESENC x1 x0;
          x1 = MOVOU_load rkeys 144;
          x0 = AESENC x1 x0
      in MOVOU_store x0 dst 0)"

text \<open>\<open>CnSingleRoundAsm(dst, src *uint64, rkey *uint64)\<close>.\<close>

definition CnSingleRoundAsm :: "memory \<Rightarrow> memory \<Rightarrow> memory \<Rightarrow> memory" where
  "CnSingleRoundAsm dst src rkey =
     (let x0 = MOVOU_load src 0;
          x1 = MOVOU_load rkey 0;
          x0 = AESENC x1 x0
      in MOVOU_store x0 dst 0)"

text \<open>
  The machine state of \<open>CnExpandKeyAsm\<close> and its two subroutines: the registers they use,
  the output pointer \<open>BX\<close> as a byte offset from the \<open>rkey\<close> argument, and the memory
  behind that argument.
\<close>

record expand_state =
  X0 :: xmm
  X1 :: xmm
  X2 :: xmm
  X4 :: xmm
  BX :: nat
  rkey_mem :: memory

definition expand_key_256a :: "expand_state \<Rightarrow> expand_state" where
  "expand_key_256a s0 =
     (let s = s0\<lparr>X1 := PSHUFD 0xff (X1 s0)\<rparr>;
          s = s\<lparr>X4 := SHUFPS 0x10 (X0 s) (X4 s)\<rparr>;
          s = s\<lparr>X0 := PXOR (X4 s) (X0 s)\<rparr>;
          s = s\<lparr>X4 := SHUFPS 0x8c (X0 s) (X4 s)\<rparr>;
          s = s\<lparr>X0 := PXOR (X4 s) (X0 s)\<rparr>;
          s = s\<lparr>X0 := PXOR (X1 s) (X0 s)\<rparr>;
          s = s\<lparr>rkey_mem := MOVOU_store (X0 s) (rkey_mem s) (BX s)\<rparr>;
          s = s\<lparr>BX := BX s + 16\<rparr>
      in s)"

definition expand_key_256b :: "expand_state \<Rightarrow> expand_state" where
  "expand_key_256b s0 =
     (let s = s0\<lparr>X1 := PSHUFD 0xaa (X1 s0)\<rparr>;
          s = s\<lparr>X4 := SHUFPS 0x10 (X2 s) (X4 s)\<rparr>;
          s = s\<lparr>X2 := PXOR (X4 s) (X2 s)\<rparr>;
          s = s\<lparr>X4 := SHUFPS 0x8c (X2 s) (X4 s)\<rparr>;
          s = s\<lparr>X2 := PXOR (X4 s) (X2 s)\<rparr>;
          s = s\<lparr>X2 := PXOR (X1 s) (X2 s)\<rparr>;
          s = s\<lparr>rkey_mem := MOVOU_store (X2 s) (rkey_mem s) (BX s)\<rparr>;
          s = s\<lparr>BX := BX s + 16\<rparr>
      in s)"

text \<open>
  \<open>CnExpandKeyAsm(key *uint64, rkey *uint32)\<close>: the body up to \<open>RET\<close>, one line per
  instruction. \<open>X1\<close> and \<open>X2\<close> are written before they are read, so their values on entry
  do not matter; they start as the given register contents \<open>r\<close>.
\<close>

definition CnExpandKeyAsm_run :: "xmm \<Rightarrow> memory \<Rightarrow> memory \<Rightarrow> expand_state" where
  "CnExpandKeyAsm_run r key rkey =
     (let s = \<lparr>X0 = MOVOU_load key 0, X1 = r, X2 = r, X4 = r, BX = 0, rkey_mem = rkey\<rparr>;
          s = s\<lparr>rkey_mem := MOVOU_store (X0 s) (rkey_mem s) (BX s)\<rparr>;
          s = s\<lparr>BX := BX s + 16\<rparr>;
          s = s\<lparr>X4 := PXOR (X4 s) (X4 s)\<rparr>;
          s = s\<lparr>X2 := MOVOU_load key 16\<rparr>;
          s = s\<lparr>rkey_mem := MOVOU_store (X2 s) (rkey_mem s) (BX s)\<rparr>;
          s = s\<lparr>BX := BX s + 16\<rparr>;
          s = s\<lparr>X1 := AESKEYGENASSIST 0x01 (X2 s)\<rparr>;
          s = expand_key_256a s;
          s = s\<lparr>X1 := AESKEYGENASSIST 0x01 (X0 s)\<rparr>;
          s = expand_key_256b s;
          s = s\<lparr>X1 := AESKEYGENASSIST 0x02 (X2 s)\<rparr>;
          s = expand_key_256a s;
          s = s\<lparr>X1 := AESKEYGENASSIST 0x02 (X0 s)\<rparr>;
          s = expand_key_256b s;
          s = s\<lparr>X1 := AESKEYGENASSIST 0x04 (X2 s)\<rparr>;
          s = expand_key_256a s;
          s = s\<lparr>X1 := AESKEYGENASSIST 0x04 (X0 s)\<rparr>;
          s = expand_key_256b s;
          s = s\<lparr>X1 := AESKEYGENASSIST 0x08 (X2 s)\<rparr>;
          s = expand_key_256a s;
          s = s\<lparr>X1 := AESKEYGENASSIST 0x08 (X0 s)\<rparr>;
          s = expand_key_256b s;
          s = s\<lparr>X1 := AESKEYGENASSIST 0x10 (X2 s)\<rparr>;
          s = expand_key_256a s
      in s)"

definition CnExpandKeyAsm :: "memory \<Rightarrow> memory \<Rightarrow> memory" where
  "CnExpandKeyAsm key rkey = rkey_mem (CnExpandKeyAsm_run (XMM dzero dzero dzero dzero) key rkey)"

section \<open>The AES-256 key schedule and round function of FIPS-197\<close>

text \<open>
  The reference the specification compares the routines with: the key expansion of
  FIPS-197 for \<open>Nk = 8\<close>, \<open>Nr = 14\<close>, and the round of the cipher. A word is four bytes
  in the order of the key.
\<close>

definition fips_Rcon :: "nat \<Rightarrow> dword" where
  "fips_Rcon j = DW ((xtime ^^ (j - 1)) 1) 0 0 0"

function fips_KeyExpansion_loop :: "nat \<Rightarrow> nat \<Rightarrow> dword list \<Rightarrow> dword list" where
  "fips_KeyExpansion_loop i n w =
     (if i < n then
        (let temp = w ! (i - 1);
             temp = (if i mod 8 = 0 then dxor (SubWord (RotWord temp)) (fips_Rcon (i div 8))
                     else if i mod 8 = 4 then SubWord temp
                     else temp)
         in fips_KeyExpansion_loop (i + 1) n (w @ [dxor (w ! (i - 8)) temp]))
      else w)"
  by pat_completeness auto
termination
  by (relation "measure (\<lambda>(i, n, w). n - i)") auto

declare fips_KeyExpansion_loop.simps [simp del]

text \<open>The 60 words (15 round keys) of AES-256 for a key given as memory.\<close>

definition fips_KeyExpansion :: "memory \<Rightarrow> dword list" where
  "fips_KeyExpansion key = fips_KeyExpansion_loop 8 60 (map (\<lambda>i. load32 key (4 * i)) [0..<8])"

definition fips_round_keys :: "memory \<Rightarrow> nat \<Rightarrow> byte list" where
  "fips_round_keys key n = concat (map dword_bytes (take (4 * n) (fips_KeyExpansion key)))"

definition AddRoundKey :: "xmm \<Rightarrow> xmm \<Rightarrow> xmm" where
  "AddRoundKey rk st = PXOR rk st"

definition fips_round :: "xmm \<Rightarrow> xmm \<Rightarrow> xmm" where
  "fips_round st rk = AddRoundKey rk (MixColumns (ShiftRows (SubBytes st)))"


section \<open>The Go code of cryptonight.go\<close>

subsection \<open>Data\<close>

type_synonym u64 = "64 word"
type_synonym u32 = "32 word"

text \<open>The run-time panic of a slice expression whose bounds are out of range.\<close>

datatype panic = SliceBoundsOutOfRange

text \<open>\<open>type Cache struct\<close>: two arrays of fixed size, 200 bytes and 2 MiB.\<close>

record Cache =
  finalState :: "byte list"
  scratchpad :: "byte list"

text \<open>\<open>new(Cache)\<close>: the zero value.\<close>

definition new_Cache :: Cache where
  "new_Cache = \<lparr>finalState = replicate 200 0, scratchpad = replicate 2097152 0\<rparr>"

text \<open>
  A \<open>[]byte\<close> argument: the backing array from the slice's first element up to its
  capacity, and the length. The message is the first \<open>slice_len\<close> bytes.
\<close>

record slice =
  backing :: "byte list"
  slice_len :: nat

definition message :: "slice \<Rightarrow> byte list" where
  "message d = take (slice_len d) (backing d)"

text \<open>A slice whose capacity equals its length.\<close>

definition slice_of :: "byte list \<Rightarrow> slice" where
  "slice_of bs = \<lparr>backing = bs, slice_len = length bs\<rparr>"

text \<open>
  Modelled from the spec: the functions \<open>Cache.Sum\<close> calls that are not part of the files
  at hand. \<open>sha3.Keccak1600State\<close> is the spec's \<open>KeccakAbsorb\<close>, which reads the message and
  produces the 200-byte state; \<open>sha3.Keccak1600Permute\<close> is \<open>KeccakPermute\<close> on a state;
  the four hashes are the spec's \<open>Digest256\<close> functions (\<open>Write\<close> of the state followed by
  \<open>Sum(nil)\<close>); \<open>byteMul\<close> is the 64 by 64 bit multiplication that fills the two lanes of
  \<open>product\<close>, in the lane order the spec leaves open.
\<close>

record externals =
  sha3_Keccak1600State :: "byte list \<Rightarrow> byte list"
  sha3_Keccak1600Permute :: "byte list \<Rightarrow> byte list"
  blake256_Sum :: "byte list \<Rightarrow> byte list"
  groestl_Sum256 :: "byte list \<Rightarrow> byte list"
  jh_Sum256 :: "byte list \<Rightarrow> byte list"
  skein_Sum256 :: "byte list \<Rightarrow> byte list"
  byteMul :: "u64 \<Rightarrow> u64 \<Rightarrow> u64 \<times> u64"
  rkeys_neighbour :: "slice \<Rightarrow> int option"

text \<open>
  The last field is no function of the package but the doing of the Go run-time system:
  where \<open>make([]uint32, 10*4)\<close> places the buffer \<open>rkeys\<close>, seen from the message the
  call was given. \<open>CnExpandKeyAsm\<close> stores 16 bytes behind that buffer. When these 16
  bytes of memory begin \<open>k\<close> bytes after the first element of the message (before it, for
  a negative \<open>k\<close>) the field is \<open>Some k\<close>; it is \<open>None\<close> when they are memory that the call
  neither reads nor writes otherwise.
\<close>

text \<open>
  Modelled from the spec: \<open>xorWords(dst, a, b)\<close>, absent from the files at hand, is the
  bytewise XOR of two slices of equal length; the result is what is written to the front
  of \<open>dst\<close>.
\<close>

definition xorWords :: "byte list \<Rightarrow> byte list \<Rightarrow> byte list" where
  "xorWords a b = map2 (XOR) a b"

text \<open>
  \<open>copy(dst[off:], src)\<close> and the other writes to the front of \<open>dst[off:]\<close>: the new
  contents of \<open>dst\<close>. As Go's \<open>copy\<close>, it writes no further than the end of \<open>dst\<close>.
\<close>

definition write_at :: "byte list \<Rightarrow> nat \<Rightarrow> byte list \<Rightarrow> byte list" where
  "write_at dst off src = take off dst @ take (length dst - off) src @ drop (off + length src) dst"

subsection \<open>Views of a pair of 64-bit lanes\<close>

text \<open>
  \<open>a64, b64, c64, d64\<close> are \<open>[2]uint64\<close>; \<open>a8 = U64_U8(a64, 0, 2)\<close> is the same memory
  as 16 bytes. On amd64 the bytes of a lane are in little-endian order.
\<close>

type_synonym lanes = "u64 \<times> u64"

definition le_bytes64 :: "u64 \<Rightarrow> byte list" where
  "le_bytes64 w = map (\<lambda>i. ucast (drop_bit (8 * i) w)) [0..<8]"

definition le_word64 :: "byte list \<Rightarrow> u64" where
  "le_word64 bs = foldr (\<lambda>b acc. ucast b OR push_bit 8 acc) (take 8 bs) 0"

text \<open>The macro \<open>U64_U8(a, 0, 2)\<close>: the bytes of both lanes.\<close>

definition U64_U8 :: "lanes \<Rightarrow> byte list" where
  "U64_U8 a = le_bytes64 (fst a) @ le_bytes64 (snd a)"

text \<open>The lanes after 16 bytes have been written through the byte view.\<close>

definition lanes_of :: "byte list \<Rightarrow> lanes" where
  "lanes_of bs = (le_word64 (take 8 bs), le_word64 (take 8 (drop 8 bs)))"

text \<open>The macro \<open>TO_ADDR(a)\<close> on a byte view.\<close>

definition TO_ADDR :: "byte list \<Rightarrow> u32" where
  "TO_ADDR a = (push_bit 16 (ucast (a ! 2)) OR push_bit 8 (ucast (a ! 1)) OR ucast (a ! 0))
                 AND 0x1ffff0"

subsection \<open>The AES package\<close>

text \<open>A Go byte slice seen as the memory behind the pointer to its first element.\<close>

definition mem_of :: "byte list \<Rightarrow> memory" where
  "mem_of bs = (\<lambda>i. bs ! i)"

text \<open>
  \<open>aes.CnExpandKey(key, rkeys)\<close>, \<open>aes.CnRounds(dst, src, rkeys)\<close> and
  \<open>aes.CnSingleRound(dst, src, rkey)\<close> hand the addresses of the first elements of their
  arguments to the assembly routines. Each gives the new contents of the slice it writes;
  \<open>rkeys\<close>, a \<open>[]uint32\<close> of 40 words, is kept as its 160 bytes. \<open>CnExpandKeyAsm\<close> stores
  at offsets 0 to 175 from the first element of \<open>rkeys\<close>: \<open>CnExpandKey\<close> gives the new
  contents of the slice and, with them, the bytes stored behind its last element.
\<close>

definition CnExpandKey :: "byte list \<Rightarrow> byte list \<Rightarrow> byte list \<times> byte list" where
  "CnExpandKey key rkeys =
     (let m = CnExpandKeyAsm (mem_of key) (mem_of rkeys)
      in (map m [0..<length rkeys], map m [length rkeys..<176]))"

definition CnRounds :: "byte list \<Rightarrow> byte list \<Rightarrow> byte list \<Rightarrow> byte list" where
  "CnRounds dst src rkeys = map (CnRoundsAsm (mem_of dst) (mem_of src) (mem_of rkeys)) [0..<16]"

definition CnSingleRound :: "byte list \<Rightarrow> byte list \<Rightarrow> byte list \<Rightarrow> byte list" where
  "CnSingleRound dst src rkey =
     map (CnSingleRoundAsm (mem_of dst) (mem_of src) (mem_of rkey)) [0..<16]"

subsection \<open>Scratchpad initialization\<close>

text \<open>\<open>for i := 0; i < 128; i += 16 { aes.CnRounds(blocks[i:], blocks[i:], rkeys) }\<close>\<close>

function init_rounds :: "nat \<Rightarrow> byte list \<Rightarrow> byte list \<Rightarrow> byte list" where
  "init_rounds i rkeys blocks =
     (if i < 128 then
        init_rounds (i + 16) rkeys
          (write_at blocks i (CnRounds (drop i blocks) (drop i blocks) rkeys))
      else blocks)"
  by pat_completeness auto
termination
  by (relation "measure (\<lambda>(i, rkeys, blocks). 128 - i)") auto

declare init_rounds.simps [simp del]

text \<open>
  \<open>for j := 0; j < 2*1024*1024; j += 128 { ...; copy(cache.scratchpad[j:], blocks) }\<close>:
  the final \<open>blocks\<close> and scratchpad.
\<close>

function init_scratchpad :: "nat \<Rightarrow> byte list \<Rightarrow> byte list \<Rightarrow> byte list \<Rightarrow> byte list \<times> byte list"
  where
  "init_scratchpad j rkeys blocks pad =
     (if j < 2097152 then
        (let blocks = init_rounds 0 rkeys blocks;
             pad = write_at pad j blocks
         in init_scratchpad (j + 128) rkeys blocks pad)
      else (blocks, pad))"
  by pat_completeness auto
termination
  by (relation "measure (\<lambda>(j, rkeys, blocks, pad). 2097152 - j)") auto

declare init_scratchpad.simps [simp del]

subsection \<open>The memory-hard loop\<close>

text \<open>
  The variables declared before the loop and carried through it. \<open>a8, b8, c8, d8\<close> and
  \<open>rk\<close> are views of \<open>a64, b64, c64, d64\<close> and are read off these where needed.
\<close>

record mix_state =
  a64 :: lanes
  b64 :: lanes
  c64 :: lanes
  d64 :: lanes
  product :: lanes
  pad :: "byte list"

text \<open>\<open>((^t)&1)<<4 | (((^t)&1)<<4&t)<<1 | (t&32)>>1\<close> on a \<open>uint8\<close>.\<close>

definition tweak_bits :: "byte \<Rightarrow> byte" where
  "tweak_bits t = push_bit 4 (NOT t AND 1) OR push_bit 1 (push_bit 4 (NOT t AND 1) AND t)
                    OR drop_bit 1 (t AND 32)"

text \<open>The comment \<open>// byteAdd\<close> and the two assignments under it.\<close>

definition byteAdd :: "lanes \<Rightarrow> lanes \<Rightarrow> lanes" where
  "byteAdd a p = (fst a + fst p, snd a + snd p)"

text \<open>\<open>for i := uint32(0); i < 8; i++ { cache.scratchpad[addr+i+8] ^= tweak[i] }\<close>\<close>

definition xor_tweak :: "u32 \<Rightarrow> byte list \<Rightarrow> byte list \<Rightarrow> byte list" where
  "xor_tweak addr tweak p =
     foldl (\<lambda>p i. p[unat (addr + of_nat i + 8) := p ! unat (addr + of_nat i + 8) XOR tweak ! i])
       p [0..<8]"

text \<open>One pass through the body of the loop.\<close>

definition mix_iter :: "externals \<Rightarrow> int \<Rightarrow> byte list \<Rightarrow> mix_state \<Rightarrow> mix_state" where
  "mix_iter P variant tweak s =
     (let addr = TO_ADDR (U64_U8 (a64 s));
          rk = U64_U8 (a64 s);
          c = lanes_of (CnSingleRound (U64_U8 (c64 s)) (drop (unat addr) (pad s)) rk);
          p = write_at (pad s) (unat addr) (xorWords (U64_U8 (b64 s)) (U64_U8 c));
          b = c;
          p = (if variant = 1 then
                 (let t = p ! unat (addr + 11);
                      t = tweak_bits t
                  in p[unat (addr + 11) := p ! unat (addr + 11) XOR t])
               else p);
          addr = TO_ADDR (U64_U8 c);
          d = lanes_of (take 16 (drop (unat addr) p));
          prod = byteMul P (fst c) (fst d);
          a = byteAdd (a64 s) prod;
          p = write_at p (unat addr) (U64_U8 a);
          a = lanes_of (xorWords (U64_U8 a) (U64_U8 d));
          p = (if variant = 1 then xor_tweak addr tweak p else p)
      in \<lparr>a64 = a, b64 = b, c64 = c, d64 = d, product = prod, pad = p\<rparr>)"

text \<open>\<open>for i := 0; i < 524288; i++ { ... }\<close>\<close>

function memory_hard_loop :: "externals \<Rightarrow> int \<Rightarrow> byte list \<Rightarrow> nat \<Rightarrow> mix_state \<Rightarrow> mix_state"
  where
  "memory_hard_loop P variant tweak i s =
     (if i < 524288 then memory_hard_loop P variant tweak (i + 1) (mix_iter P variant tweak s)
      else s)"
  by pat_completeness auto
termination
  by (relation "measure (\<lambda>(P, variant, tweak, i, s). 524288 - i)") auto

declare memory_hard_loop.simps [simp del]

subsection \<open>Result calculation\<close>

text \<open>
  In this part \<open>blocks\<close> is no copy: it is first the slice \<open>cache.finalState[64:192]\<close> and
  then the slice \<open>cache.scratchpad[j : j+128]\<close> of the chunk just finished, so it is
  kept as a reference and read where the code reads it.
\<close>

datatype blocks_ref = InFinalState | InScratchpad nat

definition blocks_val :: "byte list \<Rightarrow> byte list \<Rightarrow> blocks_ref \<Rightarrow> byte list" where
  "blocks_val st p r =
     (case r of InFinalState \<Rightarrow> take 128 (drop 64 st) | InScratchpad j \<Rightarrow> take 128 (drop j p))"

text \<open>
  \<open>for i := 0; i < 128; i += 16 { aes.CnRounds(cache.scratchpad[j+i:j+i+16],
  cache.scratchpad[j+i:j+i+16], rkeys) }\<close>
\<close>

function result_rounds :: "nat \<Rightarrow> nat \<Rightarrow> byte list \<Rightarrow> byte list \<Rightarrow> byte list" where
  "result_rounds j i rkeys p =
     (if i < 128 then
        result_rounds j (i + 16) rkeys
          (write_at p (j + i)
             (CnRounds (take 16 (drop (j + i) p)) (take 16 (drop (j + i) p)) rkeys))
      else p)"
  by pat_completeness auto
termination
  by (relation "measure (\<lambda>(j, i, rkeys, p). 128 - i)") auto

declare result_rounds.simps [simp del]

function result_loop :: "nat \<Rightarrow> byte list \<Rightarrow> byte list \<Rightarrow> blocks_ref \<Rightarrow> byte list
                           \<Rightarrow> blocks_ref \<times> byte list" where
  "result_loop j rkeys st blocks p =
     (if j < 2097152 then
        (let p = write_at p j (xorWords (take 128 (drop j p)) (blocks_val st p blocks));
             p = result_rounds j 0 rkeys p
         in result_loop (j + 128) rkeys st (InScratchpad j) p)
      else (blocks, p))"
  by pat_completeness auto
termination
  by (relation "measure (\<lambda>(j, rkeys, st, blocks, p). 2097152 - j)") auto

declare result_loop.simps [simp del]

subsection \<open>Sum\<close>

text \<open>The \<open>switch cache.finalState[0] & 0x03\<close>, \<open>h.Write(cache.finalState[:])\<close> and \<open>h.Sum(nil)\<close>.\<close>

definition finalizer :: "externals \<Rightarrow> byte list \<Rightarrow> byte list" where
  "finalizer P st =
     (let sel = st ! 0 AND 0x03
      in if sel = 0x00 then blake256_Sum P st
         else if sel = 0x01 then groestl_Sum256 P st
         else if sel = 0x02 then jh_Sum256 P st
         else skein_Sum256 P st)"

text \<open>
  \<open>tweak := make([]byte, 8); if variant == 1 { xorWords(tweak, cache.finalState[192:],
  data[35:43]) }\<close>. The slice expression \<open>data[35:43]\<close> panics when 43 exceeds the capacity
  of \<open>data\<close>.
\<close>

definition make_tweak :: "byte list \<Rightarrow> slice \<Rightarrow> int \<Rightarrow> panic + byte list" where
  "make_tweak st data variant =
     (let tweak = replicate 8 0
      in if variant = 1 then
           (if 43 \<le> length (backing data) then
              Inr (write_at tweak 0 (xorWords (drop 192 st) (take 8 (drop 35 (backing data)))))
            else Inl SliceBoundsOutOfRange)
         else Inr tweak)"

text \<open>What a call leaves behind: the digest returned, the cache and the caller's slice.\<close>

record sum_result =
  digest :: "byte list"
  cache_after :: Cache
  data_after :: slice

text \<open>
  The memory \<open>sum_core\<close> leaves: the two arrays of the cache and the 16 bytes behind
  \<open>rkeys\<close>.
\<close>

record core_memory = Cache +
  behind_rkeys :: "byte list"

text \<open>
  The state before the last permutation: everything of \<open>Cache.Sum\<close> from the scratchpad
  initialization to \<open>copy(cache.finalState[64:192], blocks)\<close>, given the absorbed state
  and the tweak. Both calls of \<open>aes.CnExpandKey\<close> store behind the same buffer, so the
  bytes of the second call are those that remain there.
\<close>

definition sum_core :: "externals \<Rightarrow> byte list \<Rightarrow> byte list \<Rightarrow> byte list \<Rightarrow> int \<Rightarrow> core_memory"
  where
  "sum_core P pad0 st tweak variant =
     (let aesKey = take 32 st;
          rkeys = replicate 160 0;
          (rkeys, behind) = CnExpandKey aesKey rkeys;
          blocks = replicate 128 0;
          blocks = write_at blocks 0 (take 128 (drop 64 st));
          (blocks, p) = init_scratchpad 0 rkeys blocks pad0;
          s = \<lparr>a64 = lanes_of (xorWords (take 16 st) (take 16 (drop 32 st))),
               b64 = lanes_of (xorWords (take 16 (drop 16 st)) (take 16 (drop 48 st))),
               c64 = (0, 0), d64 = (0, 0), product = (0, 0), pad = p\<rparr>;
          s = memory_hard_loop P variant tweak 0 s;
          aesKey = take 32 (drop 32 st);
          (rkeys, behind) = CnExpandKey aesKey rkeys;
          (blocks, p) = result_loop 0 rkeys st InFinalState (pad s);
          st = write_at st 64 (take 128 (blocks_val st p blocks))
      in \<lparr>finalState = st, scratchpad = p, behind_rkeys = behind\<rparr>)"

text \<open>
  The caller's slice after bytes \<open>bs\<close> have been stored at the place \<open>nb\<close> (a value of
  \<open>rkeys_neighbour\<close>): the bytes of the backing array that lie there are replaced, the
  others and the length are kept.
\<close>

definition store_behind :: "int option \<Rightarrow> byte list \<Rightarrow> slice \<Rightarrow> slice" where
  "store_behind nb bs d =
     (case nb of
        None \<Rightarrow> d
      | Some k \<Rightarrow>
          d\<lparr>backing :=
              map (\<lambda>j. if k \<le> int j \<and> int j < k + int (length bs) then bs ! nat (int j - k)
                       else backing d ! j)
                [0..<length (backing d)]\<rparr>)"

text \<open>
  \<open>func (cache *Cache) Sum(data []byte, variant int) []byte\<close>. No statement of the
  function assigns to \<open>data\<close>; what reaches the message is what \<open>CnExpandKeyAsm\<close> stores
  behind \<open>rkeys\<close>, after the message has been absorbed and the tweak made.
\<close>

definition Cache_Sum :: "externals \<Rightarrow> Cache \<Rightarrow> slice \<Rightarrow> int \<Rightarrow> panic + sum_result" where
  "Cache_Sum P cache data variant =
     (let st = sha3_Keccak1600State P (message data)
      in case make_tweak st data variant of
           Inl e \<Rightarrow> Inl e
         | Inr tweak \<Rightarrow>
             (let c = sum_core P (scratchpad cache) st tweak variant;
                  st = sha3_Keccak1600Permute P (finalState c)
              in Inr \<lparr>digest = finalizer P st,
                      cache_after = \<lparr>finalState = st, scratchpad = scratchpad c\<rparr>,
                      data_after = store_behind (rkeys_neighbour P data) (behind_rkeys c) data\<rparr>))"

text \<open>\<open>func Sum(data []byte, variant int) []byte { return new(Cache).Sum(data, variant) }\<close>\<close>

definition Sum :: "externals \<Rightarrow> slice \<Rightarrow> int \<Rightarrow> panic + sum_result" where
  "Sum P data variant = Cache_Sum P new_Cache data variant"

section \<open>Auxiliary definitions for the key-schedule proofs\<close>

fun xmm_words :: "xmm \<Rightarrow> dword list" where
  "xmm_words (XMM a b c e) = [a, b, c, e]"

text \<open>
  What \<open>AESKEYGENASSIST\<close> followed by \<open>_expand_key_256a\<close> leaves in \<open>X0\<close> (\<open>keyA\<close>), and
  what \<open>AESKEYGENASSIST\<close> followed by \<open>_expand_key_256b\<close> leaves in \<open>X2\<close> (\<open>keyB\<close>).
\<close>

fun keyA :: "dword \<Rightarrow> xmm \<Rightarrow> xmm \<Rightarrow> xmm" where
  "keyA rc (XMM a0 a1 a2 a3) (XMM b0 b1 b2 b3) =
     (let t = dxor (SubWord (RotWord b3)) rc;
          w0 = dxor a0 t; w1 = dxor a1 w0; w2 = dxor a2 w1; w3 = dxor a3 w2
      in XMM w0 w1 w2 w3)"

fun keyB :: "xmm \<Rightarrow> xmm \<Rightarrow> xmm" where
  "keyB (XMM a0 a1 a2 a3) (XMM b0 b1 b2 b3) =
     (let t = SubWord b3;
          w0 = dxor a0 t; w1 = dxor a1 w0; w2 = dxor a2 w1; w3 = dxor a3 w2
      in XMM w0 w1 w2 w3)"

text \<open>The eleven values \<open>CnExpandKeyAsm\<close> stores, in the order of its stores.\<close>

definition cn_round_keys :: "memory \<Rightarrow> xmm list" where
  "cn_round_keys key =
     (let r0 = MOVOU_load key 0;
          r1 = MOVOU_load key 16;
          r2 = keyA (DW 0x01 0 0 0) r0 r1;
          r3 = keyB r1 r2;
          r4 = keyA (DW 0x02 0 0 0) r2 r3;
          r5 = keyB r3 r4;
          r6 = keyA (DW 0x04 0 0 0) r4 r5;
          r7 = keyB r5 r6;
          r8 = keyA (DW 0x08 0 0 0) r6 r7;
          r9 = keyB r7 r8;
          r10 = keyA (DW 0x10 0 0 0) r8 r9
      in [r0, r1, r2, r3, r4, r5, r6, r7, r8, r9, r10])"

fun store_all :: "xmm list \<Rightarrow> memory \<Rightarrow> nat \<Rightarrow> memory" where
  "store_all [] m p = m"
| "store_all (x # xs) m p = store_all xs (MOVOU_store x m p) (p + 16)"

definition next_word :: "nat \<Rightarrow> dword list \<Rightarrow> dword" where
  "next_word i w =
     dxor (w ! (i - 8))
       (if i mod 8 = 0 then dxor (SubWord (RotWord (w ! (i - 1)))) (fips_Rcon (i div 8))
        else if i mod 8 = 4 then SubWord (w ! (i - 1))
        else w ! (i - 1))"

definition round_keys_at :: "memory \<Rightarrow> nat \<Rightarrow> xmm list" where
  "round_keys_at rkeys n = map (\<lambda>i. MOVOU_load rkeys (16 * i)) [0..<n]"

text \<open>The 256-bit example key of FIPS-197, appendix A.3.\<close>

definition fips197_key :: "byte list" where
  "fips197_key =
     [0x60, 0x3d, 0xeb, 0x10, 0x15, 0xca, 0x71, 0xbe, 0x2b, 0x73, 0xae, 0xf0, 0x85, 0x7d, 0x77, 0x81,
      0x1f, 0x35, 0x2c, 0x07, 0x3b, 0x61, 0x08, 0xd7, 0x2d, 0x98, 0x10, 0xa3, 0x09, 0x14, 0xdf, 0xf4]"


text \<open>The little-endian value of a list of bytes, without the cut at eight bytes.\<close>

definition bytes_word :: "byte list \<Rightarrow> u64" where
  "bytes_word bs = foldr (\<lambda>b acc. ucast b OR push_bit 8 acc) bs 0"

text \<open>
  An instance of the external functions for the examples: stand-ins with results of the
  right sizes, and the 128-bit product with its high lane first.
\<close>

definition example_externals :: externals where
  "example_externals =
     \<lparr>sha3_Keccak1600State = (\<lambda>m. replicate 200 (of_nat (length m))),
      sha3_Keccak1600Permute = (\<lambda>st. take 200 (map (\<lambda>b. b + 1) st @ replicate 200 0)),
      blake256_Sum = (\<lambda>st. replicate 32 0),
      groestl_Sum256 = (\<lambda>st. replicate 32 1),
      jh_Sum256 = (\<lambda>st. replicate 32 2),
      skein_Sum256 = (\<lambda>st. replicate 32 3),
      byteMul = (\<lambda>x y. (ucast (drop_bit 64 (ucast x * ucast y :: 128 word)), x * y)),
      rkeys_neighbour = (\<lambda>d. None)\<rparr>"


text \<open>The second message of \<open>ExampleSum\<close>: "variant 1 requires at least 43 bytes of input."\<close>

definition example_message_v1 :: "byte list" where
  "example_message_v1 =
     [0x76, 0x61, 0x72, 0x69, 0x61, 0x6e, 0x74, 0x20, 0x31, 0x20, 0x72, 0x65, 0x71, 0x75, 0x69, 0x72,
      0x65, 0x73, 0x20, 0x61, 0x74, 0x20, 0x6c, 0x65, 0x61, 0x73, 0x74, 0x20, 0x34, 0x33, 0x20, 0x62,
      0x79, 0x74, 0x65, 0x73, 0x20, 0x6f, 0x66, 0x20, 0x69, 0x6e, 0x70, 0x75, 0x74, 0x2e]"

section \<open>Properties of the AES routines\<close>

subsection \<open>Ten full rounds\<close>

lemma SubBytes_ShiftRows: "SubBytes (ShiftRows st) = ShiftRows (SubBytes st)"
proof (cases st)
  case (XMM a b c e)
  then show ?thesis
    by (cases a; cases b; cases c; cases e) simp
qed

lemma AESENC_is_fips_round: "AESENC rk st = fips_round st rk"
  by (simp add: AESENC_def fips_round_def AddRoundKey_def SubBytes_ShiftRows)

lemma upt_10: "[0..<10] = [0, 1, 2, 3, 4, 5, 6, 7, 8, 9]"
  by (simp add: upt_rec)

text \<open>
  The round function agrees with the worked example of FIPS-197, appendix B: the state at
  the start of round 1 and the first round key give the state at the start of round 2.
\<close>

lemma CnSingleRoundAsm_fips197_example:
  "map (CnSingleRoundAsm (\<lambda>_. 0)
          (mem_of [0x19, 0x3d, 0xe3, 0xbe, 0xa0, 0xf4, 0xe2, 0x2b,
                   0x9a, 0xc6, 0x8d, 0x2a, 0xe9, 0xf8, 0x48, 0x08])
          (mem_of [0xa0, 0xfa, 0xfe, 0x17, 0x88, 0x54, 0x2c, 0xb1,
                   0x23, 0xa3, 0x39, 0x39, 0x2a, 0x6c, 0x76, 0x05])) [0..<16] =
     [0xa4, 0x9c, 0x7f, 0xf2, 0x68, 0x9f, 0x35, 0x2b, 0x6b, 0x5b, 0xea, 0x43, 0x02, 0x6a, 0x50, 0x49]"
  by code_simp

text \<open>
  C5. \<open>CnRoundsAsm\<close> stores at \<open>dst\<close> the block loaded from \<open>src\<close> after ten applications
  of the full round of FIPS-197 (SubBytes, ShiftRows, MixColumns, AddRoundKey), keyed by the
  ten round keys at \<open>rkeys\<close> in order. Nothing is XORed into the block before the first
  round, and the tenth round has its MixColumns like the others.
\<close>

theorem CnRounds_ten_full_rounds:
  "CnRoundsAsm dst src rkeys =
     MOVOU_store (foldl fips_round (MOVOU_load src 0) (round_keys_at rkeys 10)) dst 0"
  by (simp add: CnRoundsAsm_def round_keys_at_def upt_10 AESENC_is_fips_round Let_def)

subsection \<open>The key schedule\<close>

lemma dxor_commute: "dxor a b = dxor b a"
  by (cases a; cases b) (simp add: ac_simps)

lemma dxor_assoc: "dxor (dxor a b) c = dxor a (dxor b c)"
  by (cases a; cases b; cases c) (simp add: ac_simps)

lemma dxor_left_commute: "dxor a (dxor b c) = dxor b (dxor a c)"
  by (cases a; cases b; cases c) (simp add: ac_simps)

lemma dxor_dzero [simp]: "dxor a dzero = a" "dxor dzero a = a"
  by (cases a; simp add: dzero_def)+

lemma dxor_self [simp]: "dxor a a = dzero"
  by (cases a) (simp add: dzero_def)

lemmas dxor_ac = dxor_commute dxor_assoc dxor_left_commute

lemma RotWord_SubWord: "RotWord (SubWord x) = SubWord (RotWord x)"
  by (cases x) simp

lemma PSHUFD_ff: "PSHUFD 0xff (XMM a b c e) = XMM e e e e"
  by (simp add: PSHUFD_def imm_field_def)

lemma PSHUFD_aa: "PSHUFD 0xaa (XMM a b c e) = XMM c c c c"
  by (simp add: PSHUFD_def imm_field_def)

lemma SHUFPS_10: "SHUFPS 0x10 (XMM s0 s1 s2 s3) (XMM d0 d1 d2 d3) = XMM d0 d0 s1 s0"
  by (simp add: SHUFPS_def imm_field_def)

lemma SHUFPS_8c: "SHUFPS 0x8c (XMM s0 s1 s2 s3) (XMM d0 d1 d2 d3) = XMM d0 d3 s0 s2"
  by (simp add: SHUFPS_def imm_field_def)

lemmas shuffles = PSHUFD_ff PSHUFD_aa SHUFPS_10 SHUFPS_8c

lemma PXOR_self: "PXOR x x = XMM dzero dzero dzero dzero"
  by (cases x) simp

text \<open>
  The subroutines need the first double word of \<open>X4\<close> to be zero and leave it zero; the
  other double words of \<open>X4\<close> are scratch.
\<close>

lemma expand_key_256a_state:
  "expand_key_256a \<lparr>X0 = a, X1 = AESKEYGENASSIST imm b, X2 = b, X4 = XMM dzero z1 z2 z3,
                     BX = p, rkey_mem = m\<rparr> =
     \<lparr>X0 = keyA (DW imm 0 0 0) a b, X1 = PSHUFD 0xff (AESKEYGENASSIST imm b), X2 = b,
      X4 = XMM dzero (lane a 0) (lane a 0) (dxor (lane a 2) (lane a 1)),
      BX = p + 16, rkey_mem = MOVOU_store (keyA (DW imm 0 0 0) a b) m p\<rparr>"
  by (cases a; cases b)
     (simp add: expand_key_256a_def AESKEYGENASSIST_def shuffles Let_def RotWord_SubWord dxor_ac)

lemma expand_key_256b_state:
  "expand_key_256b \<lparr>X0 = a, X1 = AESKEYGENASSIST imm a, X2 = b, X4 = XMM dzero z1 z2 z3,
                     BX = p, rkey_mem = m\<rparr> =
     \<lparr>X0 = a, X1 = PSHUFD 0xaa (AESKEYGENASSIST imm a), X2 = keyB b a,
      X4 = XMM dzero (lane b 0) (lane b 0) (dxor (lane b 2) (lane b 1)),
      BX = p + 16, rkey_mem = MOVOU_store (keyB b a) m p\<rparr>"
  by (cases a; cases b)
     (simp add: expand_key_256b_def AESKEYGENASSIST_def shuffles Let_def dxor_ac)

lemma CnExpandKeyAsm_run_stores:
  "rkey_mem (CnExpandKeyAsm_run r key rkey) = store_all (cn_round_keys key) rkey 0"
  by (simp add: CnExpandKeyAsm_run_def cn_round_keys_def Let_def PXOR_self
                expand_key_256a_state expand_key_256b_state)

lemma CnExpandKeyAsm_stores:
  "CnExpandKeyAsm key rkey = store_all (cn_round_keys key) rkey 0"
  by (simp add: CnExpandKeyAsm_def CnExpandKeyAsm_run_stores)

lemma length_cn_round_keys: "length (cn_round_keys key) = 11"
  by (simp add: cn_round_keys_def Let_def)

paragraph \<open>Reading back what was stored\<close>

lemma length_xmm_bytes [simp]: "length (xmm_bytes x) = 16"
  by (cases x) (auto simp: xmm_bytes_def dword_bytes_def split: dword.splits)

lemma MOVOU_store_read: "map (MOVOU_store x m p) [p..<p + 16] = xmm_bytes x"
  by (simp add: list_eq_iff_nth_eq MOVOU_store_def)

lemma MOVOU_store_other: "a < p \<or> p + 16 \<le> a \<Longrightarrow> MOVOU_store x m p a = m a"
  by (auto simp: MOVOU_store_def)

lemma store_all_below: "a < p \<Longrightarrow> store_all xs m p a = m a"
  by (induction xs arbitrary: m p) (simp_all add: MOVOU_store_other)

lemma store_all_above: "p + 16 * length xs \<le> a \<Longrightarrow> store_all xs m p a = m a"
  by (induction xs arbitrary: m p) (simp_all add: MOVOU_store_other)

lemma store_all_read_prefix:
  "k \<le> length xs \<Longrightarrow>
     map (store_all xs m p) [p..<p + 16 * k] = concat (map xmm_bytes (take k xs))"
proof (induction xs arbitrary: m p k)
  case Nil
  then show ?case by simp
next
  case (Cons x xs)
  show ?case
  proof (cases k)
    case 0
    then show ?thesis by simp
  next
    case (Suc j)
    with Cons.prems have j: "j \<le> length xs" by simp
    have e: "p + 16 * k = p + 16 + 16 * j"
      using Suc by simp
    have split: "[p..<p + 16 * k] = [p..<p + 16] @ [p + 16..<p + 16 + 16 * j]"
      unfolding e by (rule upt_add_eq_append) simp
    have low: "map (store_all (x # xs) m p) [p..<p + 16] = xmm_bytes x"
    proof -
      have "map (store_all (x # xs) m p) [p..<p + 16] = map (MOVOU_store x m p) [p..<p + 16]"
        by (rule map_cong) (simp_all add: store_all_below)
      then show ?thesis by (simp add: MOVOU_store_read)
    qed
    have high: "map (store_all (x # xs) m p) [p + 16..<p + 16 + 16 * j]
                  = concat (map xmm_bytes (take j xs))"
      using Cons.IH [OF j, of "MOVOU_store x m p" "p + 16"] by simp
    show ?thesis
      unfolding split map_append low high using Suc by simp
  qed
qed

lemma xmm_bytes_words: "xmm_bytes x = concat (map dword_bytes (xmm_words x))"
  by (cases x) (simp add: xmm_bytes_def)

lemma concat_xmm_bytes:
  "concat (map xmm_bytes xs) = concat (map dword_bytes (concat (map xmm_words xs)))"
  by (induction xs) (simp_all add: xmm_bytes_words)

lemma length_xmm_words [simp]: "length (xmm_words x) = 4"
  by (cases x) simp

lemma take_concat_words:
  "take (4 * k) (concat (map xmm_words xs)) = concat (map xmm_words (take k xs))"
proof (induction xs arbitrary: k)
  case Nil
  then show ?case by simp
next
  case (Cons x xs)
  then show ?case by (cases k) simp_all
qed

paragraph \<open>The loop of the FIPS-197 key expansion, four words at a time\<close>

lemma loop_unfold:
  "fips_KeyExpansion_loop i n w =
     (if i < n then fips_KeyExpansion_loop (i + 1) n (w @ [next_word i w]) else w)"
  by (subst fips_KeyExpansion_loop.simps) (simp add: next_word_def Let_def)

lemma loop_keeps_prefix:
  "k \<le> length w \<Longrightarrow> take k (fips_KeyExpansion_loop i n w) = take k w"
proof (induction "n - i" arbitrary: i w)
  case 0
  then show ?case by (subst loop_unfold) simp
next
  case (Suc d)
  then have lt: "i < n" and d: "d = n - (i + 1)" by simp_all
  have "take k (fips_KeyExpansion_loop (i + 1) n (w @ [next_word i w])) =
        take k (w @ [next_word i w])"
    using Suc.hyps(1) [OF d] Suc.prems by simp
  then show ?case
    using lt Suc.prems by (subst loop_unfold) simp
qed

lemma fips_Rcon_values:
  "fips_Rcon (Suc 0) = DW 0x01 0 0 0" "fips_Rcon 2 = DW 0x02 0 0 0" "fips_Rcon 3 = DW 0x04 0 0 0"
  "fips_Rcon 4 = DW 0x08 0 0 0" "fips_Rcon 5 = DW 0x10 0 0 0"
  by (simp_all add: fips_Rcon_def xtime_def eval_nat_numeral)

lemma loop_A:
  assumes "length pre + 8 = i" "i mod 8 = 0" "i + 4 \<le> n"
  shows "fips_KeyExpansion_loop i n (pre @ xmm_words a @ xmm_words b) =
         fips_KeyExpansion_loop (i + 4) n
           ((pre @ xmm_words a) @ xmm_words b @ xmm_words (keyA (fips_Rcon (i div 8)) a b))"
proof -
  have m: "(i + 1) mod 8 = 1" "(i + 2) mod 8 = 2" "(i + 3) mod 8 = 3"
    using assms(2) by presburger+
  obtain a0 a1 a2 a3 where a: "a = XMM a0 a1 a2 a3" by (cases a)
  obtain b0 b1 b2 b3 where b: "b = XMM b0 b1 b2 b3" by (cases b)
  have i: "i = length pre + 8" using assms(1) by simp
  show ?thesis
    apply (subst loop_unfold)
    apply (subst loop_unfold)
    apply (subst loop_unfold)
    apply (subst loop_unfold)
    using assms(3) m assms(2)
    apply (simp add: next_word_def a b i nth_append Let_def)
    done
qed

lemma loop_B:
  assumes "length pre + 8 = i" "i mod 8 = 4" "i + 4 \<le> n"
  shows "fips_KeyExpansion_loop i n (pre @ xmm_words a @ xmm_words b) =
         fips_KeyExpansion_loop (i + 4) n
           ((pre @ xmm_words a) @ xmm_words b @ xmm_words (keyB a b))"
proof -
  have m: "(i + 1) mod 8 = 5" "(i + 2) mod 8 = 6" "(i + 3) mod 8 = 7"
    using assms(2) by presburger+
  obtain a0 a1 a2 a3 where a: "a = XMM a0 a1 a2 a3" by (cases a)
  obtain b0 b1 b2 b3 where b: "b = XMM b0 b1 b2 b3" by (cases b)
  have i: "i = length pre + 8" using assms(1) by simp
  show ?thesis
    apply (subst loop_unfold)
    apply (subst loop_unfold)
    apply (subst loop_unfold)
    apply (subst loop_unfold)
    using assms(3) m assms(2)
    apply (simp add: next_word_def a b i nth_append Let_def)
    done
qed

lemma key_words:
  "map (\<lambda>i. load32 key (4 * i)) [0..<8] =
     xmm_words (MOVOU_load key 0) @ xmm_words (MOVOU_load key 16)"
  by (simp add: MOVOU_load_def upt_rec)

lemma fips_first_44_words:
  "take 44 (fips_KeyExpansion key) = concat (map xmm_words (cn_round_keys key))"
proof -
  define r0 where "r0 = MOVOU_load key 0"
  define r1 where "r1 = MOVOU_load key 16"
  define r2 where "r2 = keyA (DW 0x01 0 0 0) r0 r1"
  define r3 where "r3 = keyB r1 r2"
  define r4 where "r4 = keyA (DW 0x02 0 0 0) r2 r3"
  define r5 where "r5 = keyB r3 r4"
  define r6 where "r6 = keyA (DW 0x04 0 0 0) r4 r5"
  define r7 where "r7 = keyB r5 r6"
  define r8 where "r8 = keyA (DW 0x08 0 0 0) r6 r7"
  define r9 where "r9 = keyB r7 r8"
  define r10 where "r10 = keyA (DW 0x10 0 0 0) r8 r9"
  note defs = r0_def r1_def r2_def r3_def r4_def r5_def r6_def r7_def r8_def r9_def r10_def
  have rks: "cn_round_keys key = [r0, r1, r2, r3, r4, r5, r6, r7, r8, r9, r10]"
    by (simp add: cn_round_keys_def Let_def defs)
  let ?W = "\<lambda>xs. concat (map xmm_words xs)"
  let ?L = "\<lambda>i. fips_KeyExpansion_loop i 60"
  have s1: "?L 8 (?W [r0, r1]) = ?L 12 (?W [r0, r1, r2])"
    using loop_A [of "[]" 8 60 r0 r1] by (simp add: fips_Rcon_values r2_def)
  have s2: "?L 12 (?W [r0, r1, r2]) = ?L 16 (?W [r0, r1, r2, r3])"
    using loop_B [of "?W [r0]" 12 60 r1 r2] by (simp add: r3_def)
  have s3: "?L 16 (?W [r0, r1, r2, r3]) = ?L 20 (?W [r0, r1, r2, r3, r4])"
    using loop_A [of "?W [r0, r1]" 16 60 r2 r3] by (simp add: fips_Rcon_values r4_def)
  have s4: "?L 20 (?W [r0, r1, r2, r3, r4]) = ?L 24 (?W [r0, r1, r2, r3, r4, r5])"
    using loop_B [of "?W [r0, r1, r2]" 20 60 r3 r4] by (simp add: r5_def)
  have s5: "?L 24 (?W [r0, r1, r2, r3, r4, r5]) = ?L 28 (?W [r0, r1, r2, r3, r4, r5, r6])"
    using loop_A [of "?W [r0, r1, r2, r3]" 24 60 r4 r5] by (simp add: fips_Rcon_values r6_def)
  have s6: "?L 28 (?W [r0, r1, r2, r3, r4, r5, r6]) =
            ?L 32 (?W [r0, r1, r2, r3, r4, r5, r6, r7])"
    using loop_B [of "?W [r0, r1, r2, r3, r4]" 28 60 r5 r6] by (simp add: r7_def)
  have s7: "?L 32 (?W [r0, r1, r2, r3, r4, r5, r6, r7]) =
            ?L 36 (?W [r0, r1, r2, r3, r4, r5, r6, r7, r8])"
    using loop_A [of "?W [r0, r1, r2, r3, r4, r5]" 32 60 r6 r7]
    by (simp add: fips_Rcon_values r8_def)
  have s8: "?L 36 (?W [r0, r1, r2, r3, r4, r5, r6, r7, r8]) =
            ?L 40 (?W [r0, r1, r2, r3, r4, r5, r6, r7, r8, r9])"
    using loop_B [of "?W [r0, r1, r2, r3, r4, r5, r6]" 36 60 r7 r8] by (simp add: r9_def)
  have s9: "?L 40 (?W [r0, r1, r2, r3, r4, r5, r6, r7, r8, r9]) =
            ?L 44 (?W [r0, r1, r2, r3, r4, r5, r6, r7, r8, r9, r10])"
    using loop_A [of "?W [r0, r1, r2, r3, r4, r5, r6, r7]" 40 60 r8 r9]
    by (simp add: fips_Rcon_values r10_def)
  have "fips_KeyExpansion key = ?L 8 (?W [r0, r1])"
    by (simp add: fips_KeyExpansion_def key_words r0_def r1_def)
  also have "\<dots> = ?L 44 (?W [r0, r1, r2, r3, r4, r5, r6, r7, r8, r9, r10])"
    by (simp only: s1 s2 s3 s4 s5 s6 s7 s8 s9)
  finally have "take 44 (fips_KeyExpansion key) =
                take 44 (?W [r0, r1, r2, r3, r4, r5, r6, r7, r8, r9, r10])"
    by (simp add: loop_keeps_prefix)
  then show ?thesis by (simp add: rks)
qed

text \<open>
  For every key, the first \<open>16 * k\<close> bytes behind \<open>rkey\<close> after the call are the first \<open>k\<close>
  round keys of the AES-256 key expansion, for every \<open>k\<close> up to 11; bytes from offset 176
  on keep their value. So the ten round keys of the 40-word buffer are the published ones,
  and the 16 bytes behind the buffer receive the eleventh.
\<close>

lemma CnExpandKeyAsm_round_keys:
  assumes "k \<le> 11"
  shows "map (CnExpandKeyAsm key rkey) [0..<16 * k] = fips_round_keys key k"
proof -
  have "take (4 * k) (fips_KeyExpansion key) = take (4 * k) (take 44 (fips_KeyExpansion key))"
    using assms by (simp add: min_def)
  also have "\<dots> = concat (map xmm_words (take k (cn_round_keys key)))"
    by (simp only: fips_first_44_words take_concat_words)
  finally have "fips_round_keys key k = concat (map xmm_bytes (take k (cn_round_keys key)))"
    by (simp add: fips_round_keys_def concat_xmm_bytes)
  moreover have "map (CnExpandKeyAsm key rkey) [0..<0 + 16 * k] =
                 concat (map xmm_bytes (take k (cn_round_keys key)))"
    unfolding CnExpandKeyAsm_stores
    by (rule store_all_read_prefix) (simp add: length_cn_round_keys assms)
  ultimately show ?thesis by simp
qed

lemma CnExpandKeyAsm_frame: "176 \<le> a \<Longrightarrow> CnExpandKeyAsm key rkey a = rkey a"
  by (simp add: CnExpandKeyAsm_stores store_all_above length_cn_round_keys)

lemma CnExpandKeyAsm_ten_round_keys:
  "map (CnExpandKeyAsm key rkey) [0..<160] = fips_round_keys key 10"
  using CnExpandKeyAsm_round_keys [of 10 key rkey] by simp

lemma CnExpandKeyAsm_eleventh_round_key:
  "map (CnExpandKeyAsm key rkey) [160..<176] = drop 160 (fips_round_keys key 11)"
proof -
  have "drop 160 (map (CnExpandKeyAsm key rkey) [0..<176]) =
        map (CnExpandKeyAsm key rkey) [160..<176]"
    by (simp only: drop_map drop_upt) simp
  then show ?thesis
    using CnExpandKeyAsm_round_keys [of 11 key rkey] by simp
qed

text \<open>
  The known-answer test of FIPS-197, appendix A.3: for the example key the 40 words of
  the buffer are \<open>w0\<close> to \<open>w39\<close> of the published expansion.
\<close>

lemma CnExpandKeyAsm_fips197_example:
  "map (CnExpandKeyAsm (mem_of fips197_key) (\<lambda>_. 0)) [0..<160] =
     [0x60, 0x3d, 0xeb, 0x10, 0x15, 0xca, 0x71, 0xbe, 0x2b, 0x73, 0xae, 0xf0, 0x85, 0x7d, 0x77, 0x81,
      0x1f, 0x35, 0x2c, 0x07, 0x3b, 0x61, 0x08, 0xd7, 0x2d, 0x98, 0x10, 0xa3, 0x09, 0x14, 0xdf, 0xf4,
      0x9b, 0xa3, 0x54, 0x11, 0x8e, 0x69, 0x25, 0xaf, 0xa5, 0x1a, 0x8b, 0x5f, 0x20, 0x67, 0xfc, 0xde,
      0xa8, 0xb0, 0x9c, 0x1a, 0x93, 0xd1, 0x94, 0xcd, 0xbe, 0x49, 0x84, 0x6e, 0xb7, 0x5d, 0x5b, 0x9a,
      0xd5, 0x9a, 0xec, 0xb8, 0x5b, 0xf3, 0xc9, 0x17, 0xfe, 0xe9, 0x42, 0x48, 0xde, 0x8e, 0xbe, 0x96,
      0xb5, 0xa9, 0x32, 0x8a, 0x26, 0x78, 0xa6, 0x47, 0x98, 0x31, 0x22, 0x29, 0x2f, 0x6c, 0x79, 0xb3,
      0x81, 0x2c, 0x81, 0xad, 0xda, 0xdf, 0x48, 0xba, 0x24, 0x36, 0x0a, 0xf2, 0xfa, 0xb8, 0xb4, 0x64,
      0x98, 0xc5, 0xbf, 0xc9, 0xbe, 0xbd, 0x19, 0x8e, 0x26, 0x8c, 0x3b, 0xa7, 0x09, 0xe0, 0x42, 0x14,
      0x68, 0x00, 0x7b, 0xac, 0xb2, 0xdf, 0x33, 0x16, 0x96, 0xe9, 0x39, 0xe4, 0x6c, 0x51, 0x8d, 0x80,
      0xc8, 0x14, 0xe2, 0x04, 0x76, 0xa9, 0xfb, 0x8a, 0x50, 0x25, 0xc0, 0x2d, 0x59, 0xc5, 0x82, 0x39]"
  by code_simp

text \<open>
  C2. The ten 128-bit round keys in the 40-word buffer are those of the AES-256 key
  schedule (\<open>CnExpandKeyAsm_ten_round_keys\<close>), but the routine does not stop there: its
  last \<open>AESKEYGENASSIST $0x10\<close> and call of \<open>_expand_key_256a\<close> store an eleventh round key
  at byte offsets 160 to 175, behind the 40 words. For the example key of FIPS-197,
  appendix A.3, and memory that was zero, these 16 bytes become the words \<open>w40\<close> to \<open>w43\<close>
  of the published expansion.
\<close>

theorem CnExpandKeyAsm_stores_eleventh_key:
  "map (CnExpandKeyAsm (mem_of fips197_key) (\<lambda>_. 0)) [160..<176] =
     [0xde, 0x13, 0x69, 0x67, 0x6c, 0xcc, 0x5a, 0x71, 0xfa, 0x25, 0x63, 0x95, 0x96, 0x74, 0xee, 0x15]"
  by code_simp

section \<open>Properties of the Go code\<close>

subsection \<open>The address mask\<close>

lemma TO_ADDR_le: "TO_ADDR a \<le> 0x1ffff0"
  unfolding TO_ADDR_def by (rule word_and_le1)

lemma TO_ADDR_unat_le: "unat (TO_ADDR a) \<le> 2097136"
  using TO_ADDR_le [of a] by (simp add: word_le_nat_alt)

lemma TO_ADDR_low_bits: "TO_ADDR a AND 0xf = 0"
  by (simp add: TO_ADDR_def and.assoc)

lemma TO_ADDR_aligned: "16 dvd unat (TO_ADDR a)"
proof -
  have "take_bit 4 (TO_ADDR a) = 0"
    using TO_ADDR_low_bits [of a] by (simp add: take_bit_eq_mask mask_eq_exp_minus_1)
  then have "take_bit 4 (unat (TO_ADDR a)) = 0"
    by (metis unsigned_take_bit_eq unsigned_0)
  then show ?thesis
    by (simp add: take_bit_eq_mod mod_eq_0_iff_dvd)
qed

lemma unat_add_small:
  fixes x :: u32
  assumes "unat x \<le> 2097136" "k \<le> 15"
  shows "unat (x + of_nat k) = unat x + k"
proof -
  have "unat (x + of_nat k) = (unat x + unat (of_nat k :: u32)) mod 2 ^ 32"
    by (simp add: unat_word_ariths)
  moreover have "unat (of_nat k :: u32) = k"
    using assms(2) by (simp add: unat_of_nat)
  ultimately show ?thesis using assms by simp
qed

text \<open>
  C3. For every register value, seen as bytes, the address \<open>TO_ADDR\<close> derives from it is a
  multiple of 16 and below \<open>2^21\<close>. So the 16 bytes at \<open>addr\<close> end inside the 2 MiB
  scratchpad, and the indices \<open>addr+11\<close> and \<open>addr+i+8\<close> for \<open>i < 8\<close>, computed in
  \<open>uint32\<close>, do not wrap and stay below \<open>addr+16\<close>; a 16-byte slice taken at \<open>addr\<close> from
  a scratchpad of \<open>2^21\<close> bytes is complete.
\<close>

theorem TO_ADDR_in_scratchpad:
  "16 dvd unat (TO_ADDR a) \<and> unat (TO_ADDR a) < 2 ^ 21 \<and>
   unat (TO_ADDR a) + 16 \<le> 2097152 \<and>
   unat (TO_ADDR a + 11) = unat (TO_ADDR a) + 11 \<and>
   (\<forall>i < 8. unat (TO_ADDR a + of_nat i + 8) = unat (TO_ADDR a) + i + 8) \<and>
   (\<forall>p. length p = 2097152 \<longrightarrow> length (take 16 (drop (unat (TO_ADDR a)) p)) = 16)"
proof -
  have le: "unat (TO_ADDR a) \<le> 2097136" by (rule TO_ADDR_unat_le)
  have e11: "unat (TO_ADDR a + 11) = unat (TO_ADDR a) + 11"
    using unat_add_small [OF le, of 11] by simp
  have tw: "unat (TO_ADDR a + of_nat i + 8) = unat (TO_ADDR a) + i + 8" if "i < 8" for i
  proof -
    have "TO_ADDR a + of_nat i + 8 = TO_ADDR a + of_nat (i + 8)" by simp
    moreover have "unat (TO_ADDR a + of_nat (i + 8)) = unat (TO_ADDR a) + (i + 8)"
      using that by (intro unat_add_small [OF le]) simp
    ultimately show ?thesis by (simp only: add.assoc)
  qed
  have sl: "length (take 16 (drop (unat (TO_ADDR a)) p)) = 16" if "length p = 2097152"
    for p :: "byte list"
    using le that by simp
  show ?thesis using le e11 tw sl TO_ADDR_aligned [of a] by simp
qed

theorem TO_ADDR_in_scratchpad_witness:
  "(7 :: nat) < 8 \<and> unat (TO_ADDR [0xff, 0xff, 0xff] + of_nat 7 + 8) = 2097151"
  using TO_ADDR_in_scratchpad [of "[0xff, 0xff, 0xff]"]
  by (simp add: TO_ADDR_def)

subsection \<open>The two views of a register\<close>

lemma length_le_bytes64 [simp]: "length (le_bytes64 w) = 8"
  by (simp add: le_bytes64_def)

lemma nth_le_bytes64: "k < 8 \<Longrightarrow> le_bytes64 w ! k = ucast (drop_bit (8 * k) w)"
  by (simp add: le_bytes64_def)

lemma bit_le_bytes64:
  "k < 8 \<Longrightarrow> bit (le_bytes64 w ! k) m \<longleftrightarrow> m < 8 \<and> bit w (8 * k + m)"
  by (simp add: nth_le_bytes64 bit_ucast_iff bit_drop_bit_eq)

lemma bit_step:
  "bit (ucast (b :: byte) OR push_bit 8 (acc :: u64)) n \<longleftrightarrow>
     (n < 8 \<and> bit b n) \<or> (8 \<le> n \<and> n < 64 \<and> bit acc (n - 8))"
  by (simp add: bit_or_iff bit_ucast_iff bit_push_bit_iff) (use bit_imp_le_length in fastforce)

lemma bytes_word_simps:
  "bytes_word [] = 0"
  "bytes_word (b # bs) = ucast b OR push_bit 8 (bytes_word bs)"
  by (simp_all add: bytes_word_def)

lemma bit_bytes_word:
  "bit (bytes_word bs) n \<longleftrightarrow> n < 64 \<and> n div 8 < length bs \<and> bit (bs ! (n div 8)) (n mod 8)"
proof (induction bs arbitrary: n)
  case Nil
  then show ?case by (simp add: bytes_word_simps)
next
  case (Cons b bs)
  have step: "bit (bytes_word (b # bs)) n \<longleftrightarrow>
              (n < 8 \<and> bit b n) \<or> (8 \<le> n \<and> n < 64 \<and> bit (bytes_word bs) (n - 8))"
    unfolding bytes_word_simps by (rule bit_step)
  show ?case
  proof (cases "n < 8")
    case True
    then have "n div 8 = 0" "n mod 8 = n" "n < 64" by simp_all
    then show ?thesis unfolding step using True by simp
  next
    case False
    then have d: "n div 8 = Suc ((n - 8) div 8)" and m: "(n - 8) mod 8 = n mod 8"
      by (simp_all add: le_div_geq le_mod_geq)
    have lt: "n - 8 < 64 \<and> 8 \<le> n \<and> n < 64 \<longleftrightarrow> n < 64" using False by arith
    have "bit (bytes_word (b # bs)) n \<longleftrightarrow>
            8 \<le> n \<and> n < 64 \<and> bit (bytes_word bs) (n - 8)"
      unfolding step using False by blast
    also have "\<dots> \<longleftrightarrow> (n - 8 < 64 \<and> 8 \<le> n \<and> n < 64) \<and> (n - 8) div 8 < length bs
                       \<and> bit (bs ! ((n - 8) div 8)) ((n - 8) mod 8)"
      unfolding Cons.IH [of "n - 8"] by blast
    also have "\<dots> \<longleftrightarrow> n < 64 \<and> n div 8 < length (b # bs) \<and> bit ((b # bs) ! (n div 8)) (n mod 8)"
      unfolding lt d m by simp
    finally show ?thesis .
  qed
qed

lemma bit_le_word64:
  "length bs = 8 \<Longrightarrow> bit (le_word64 bs) n \<longleftrightarrow> n < 64 \<and> bit (bs ! (n div 8)) (n mod 8)"
proof -
  assume l: "length bs = 8"
  have "le_word64 bs = bytes_word bs"
    using l by (simp add: le_word64_def bytes_word_def)
  moreover have "n < 64 \<Longrightarrow> n div 8 < 8" by simp
  ultimately show ?thesis
    using l by (auto simp add: bit_bytes_word)
qed

lemma le_word64_le_bytes64 [simp]: "le_word64 (le_bytes64 w) = w"
proof (rule bit_word_eqI)
  fix n assume "n < LENGTH(64)"
  then have n: "n < 64" "n div 8 < 8" by simp_all
  show "bit (le_word64 (le_bytes64 w)) n = bit w n"
    using n by (simp add: bit_le_word64 bit_le_bytes64)
qed

lemma le_word64_xor:
  "le_word64 (map2 (XOR) (le_bytes64 x) (le_bytes64 y)) = x XOR y"
proof (rule bit_word_eqI)
  fix n assume "n < LENGTH(64)"
  then have n: "n < 64" "n div 8 < 8" by simp_all
  show "bit (le_word64 (map2 (XOR) (le_bytes64 x) (le_bytes64 y))) n = bit (x XOR y) n"
    using n by (simp add: bit_le_word64 bit_le_bytes64 bit_xor_iff)
qed

lemma lanes_of_U64_U8 [simp]: "lanes_of (U64_U8 a) = a"
  by (simp add: lanes_of_def U64_U8_def)

lemma lanes_of_xorWords:
  "lanes_of (xorWords (U64_U8 a) (U64_U8 d)) = (fst a XOR fst d, snd a XOR snd d)"
  by (simp add: lanes_of_def U64_U8_def xorWords_def le_word64_xor take_zip drop_zip)

lemma unat_byteAdd:
  "unat (fst (byteAdd a p)) = (unat (fst a) + unat (fst p)) mod 2 ^ 64"
  "unat (snd (byteAdd a p)) = (unat (snd a) + unat (snd p)) mod 2 ^ 64"
  by (simp_all add: byteAdd_def unat_word_ariths)

text \<open>
  C6. In one pass through the loop body, whatever the state, \<open>product\<close> is the result of
  \<open>byteMul\<close> on the low lanes of \<open>c\<close> and \<open>d\<close>, and the new \<open>a\<close> is, lane by lane, the old
  lane plus the lane of the product, XORed with the lane of \<open>d\<close>. Each of the two sums is
  taken modulo \<open>2^64\<close> on its own: the high lane is the sum of the two high lanes and
  receives nothing from the low lanes.
\<close>

theorem mix_iter_lane_add:
  "let s' = mix_iter P variant tweak s; a = a64 s; p = product s'; d = d64 s'
   in p = byteMul P (fst (c64 s')) (fst d) \<and>
      a64 s' = ((fst a + fst p) XOR fst d, (snd a + snd p) XOR snd d) \<and>
      unat (fst a + fst p) = (unat (fst a) + unat (fst p)) mod 2 ^ 64 \<and>
      unat (snd a + snd p) = (unat (snd a) + unat (snd p)) mod 2 ^ 64"
  by (simp add: mix_iter_def Let_def lanes_of_xorWords byteAdd_def unat_word_ariths)

text \<open>A carry out of the low lane is lost, not added to the high lane.\<close>

lemma byteAdd_no_carry: "byteAdd (0xffffffffffffffff, 5) (1, 7) = (0, 12)"
  by (simp add: byteAdd_def)

subsection \<open>The loops\<close>

lemma length_write_at [simp]: "length (write_at dst off src) = length dst"
  by (auto simp add: write_at_def min_def)

lemma write_at_prefix:
  assumes "length p1 = length p2" "take j p1 = take j p2"
  shows "take (j + length src) (write_at p1 j src) = take (j + length src) (write_at p2 j src)"
proof (cases "j + length src \<le> length p1")
  case True
  then show ?thesis using assms by (simp add: write_at_def min_def)
next
  case False
  then have "drop (j + length src) p1 = []" "drop (j + length src) p2 = []"
    using assms(1) by simp_all
  then show ?thesis using assms by (simp add: write_at_def)
qed

lemma length_init_rounds [simp]: "length (init_rounds i rkeys blocks) = length blocks"
proof (induction "128 - i" arbitrary: i blocks rule: less_induct)
  case less
  show ?case
  proof (cases "i < 128")
    case True
    then have "128 - (i + 16) < 128 - i" by simp
    from less [OF this] True show ?thesis
      by (subst init_rounds.simps) simp
  next
    case False
    then show ?thesis by (subst init_rounds.simps) simp
  qed
qed

lemma init_scratchpad_indep:
  assumes "length p1 = length p2" "take j p1 = take j p2" "length blocks = 128"
    and "length p1 \<le> 2097152"
  shows "init_scratchpad j rkeys blocks p1 = init_scratchpad j rkeys blocks p2"
  using assms
proof (induction "2097152 - j" arbitrary: j blocks p1 p2 rule: less_induct)
  case less
  show ?case
  proof (cases "j < 2097152")
    case True
    let ?b = "init_rounds 0 rkeys blocks"
    have m: "2097152 - (j + 128) < 2097152 - j" using True by simp
    have lb: "length ?b = 128" using less.prems(3) by simp
    have tk: "take (j + 128) (write_at p1 j ?b) = take (j + 128) (write_at p2 j ?b)"
      using write_at_prefix [OF less.prems(1,2), of ?b] lb by simp
    have "init_scratchpad (j + 128) rkeys ?b (write_at p1 j ?b) =
          init_scratchpad (j + 128) rkeys ?b (write_at p2 j ?b)"
      using less.hyps [OF m _ tk lb] less.prems(1,4) by simp
    then show ?thesis
      using True
      by (simp add: init_scratchpad.simps [of j] Let_def)
  next
    case False
    then have "p1 = p2" using less.prems by simp
    then show ?thesis by simp
  qed
qed

lemma length_init_scratchpad:
  "length (snd (init_scratchpad j rkeys blocks p)) = length p"
proof (induction "2097152 - j" arbitrary: j blocks p rule: less_induct)
  case less
  show ?case
  proof (cases "j < 2097152")
    case True
    then have "2097152 - (j + 128) < 2097152 - j" by simp
    from less [OF this] True show ?thesis
      by (subst init_scratchpad.simps) (simp add: Let_def)
  next
    case False
    then show ?thesis by (subst init_scratchpad.simps) simp
  qed
qed

lemma length_xor_tweak [simp]: "length (xor_tweak addr tweak p) = length p"
proof -
  have "length (foldl (\<lambda>p i. p[unat (addr + of_nat i + 8) :=
                  p ! unat (addr + of_nat i + 8) XOR tweak ! i]) p is) = length p" for "is"
    by (induction "is" arbitrary: p) simp_all
  then show ?thesis by (simp add: xor_tweak_def)
qed

lemma length_pad_mix_iter [simp]: "length (pad (mix_iter P variant tweak s)) = length (pad s)"
  by (simp add: mix_iter_def Let_def)

lemma mix_iter_variant: "variant \<noteq> 1 \<Longrightarrow> mix_iter P variant tweak s = mix_iter P 0 tweak' s"
  by (simp add: mix_iter_def)

lemma memory_hard_loop_funpow:
  "memory_hard_loop P variant tweak i s = (mix_iter P variant tweak ^^ (524288 - i)) s"
proof (induction "524288 - i" arbitrary: i s rule: less_induct)
  case less
  show ?case
  proof (cases "i < 524288")
    case True
    then have m: "524288 - (i + 1) < 524288 - i" by simp
    have e: "524288 - i = Suc (524288 - (i + 1))" using True by simp
    show ?thesis
      using less [OF m] True
      by (subst memory_hard_loop.simps) (simp add: e funpow_Suc_right del: funpow.simps)
  next
    case False
    then show ?thesis by (subst memory_hard_loop.simps) simp
  qed
qed

lemma memory_hard_loop_variant:
  "variant \<noteq> 1 \<Longrightarrow>
     memory_hard_loop P variant tweak i s = memory_hard_loop P 0 tweak' i s"
proof -
  assume "variant \<noteq> 1"
  then have "mix_iter P variant tweak = mix_iter P 0 tweak'"
    by (intro ext) (rule mix_iter_variant)
  then show ?thesis by (simp add: memory_hard_loop_funpow)
qed

lemma length_pad_funpow: "length (pad ((mix_iter P variant tweak ^^ n) s)) = length (pad s)"
  by (induction n) simp_all

lemma length_pad_memory_hard_loop [simp]:
  "length (pad (memory_hard_loop P variant tweak i s)) = length (pad s)"
  by (simp add: memory_hard_loop_funpow length_pad_funpow)

lemma length_result_rounds [simp]: "length (result_rounds j i rkeys p) = length p"
proof (induction "128 - i" arbitrary: i p rule: less_induct)
  case less
  show ?case
  proof (cases "i < 128")
    case True
    then have "128 - (i + 16) < 128 - i" by simp
    from less [OF this] True show ?thesis
      by (subst result_rounds.simps) simp
  next
    case False
    then show ?thesis by (subst result_rounds.simps) simp
  qed
qed

lemma length_result_loop [simp]:
  "length (snd (result_loop j rkeys st blocks p)) = length p"
proof (induction "2097152 - j" arbitrary: j blocks p rule: less_induct)
  case less
  show ?case
  proof (cases "j < 2097152")
    case True
    then have "2097152 - (j + 128) < 2097152 - j" by simp
    from less [OF this] True show ?thesis
      by (subst result_loop.simps) (simp add: Let_def)
  next
    case False
    then show ?thesis by (subst result_loop.simps) simp
  qed
qed

lemma sum_core_variant:
  "variant \<noteq> 1 \<Longrightarrow> sum_core P pad0 st tweak variant = sum_core P pad0 st tweak' 0"
  by (simp add: sum_core_def memory_hard_loop_variant [of variant P tweak _ _ tweak'])

lemma sum_core_fresh:
  assumes "length pad1 = 2097152" "length pad2 = 2097152"
  shows "sum_core P pad1 st tweak variant = sum_core P pad2 st tweak variant"
proof -
  have "init_scratchpad 0 rkeys (write_at (replicate 128 0) 0 bs) pad1 =
        init_scratchpad 0 rkeys (write_at (replicate 128 0) 0 bs) pad2" for rkeys bs
    by (rule init_scratchpad_indep) (simp_all add: assms)
  then show ?thesis by (simp add: sum_core_def)
qed

lemma length_scratchpad_sum_core [simp]:
  "length (scratchpad (sum_core P pad0 st tweak variant)) = length pad0"
proof -
  have a: "length (snd (init_scratchpad j rkeys blocks p)) = length p" for j rkeys blocks p
    by (rule length_init_scratchpad)
  show ?thesis
    by (simp add: sum_core_def Let_def split_beta a)
qed

subsection \<open>Sum\<close>

lemma make_tweak_not_1: "variant \<noteq> 1 \<Longrightarrow> make_tweak st data variant = Inr (replicate 8 0)"
  by (simp add: make_tweak_def)

lemma and_3_cases:
  fixes x :: byte
  shows "x AND 3 = 0 \<or> x AND 3 = 1 \<or> x AND 3 = 2 \<or> x AND 3 = 3"
proof -
  have "x AND 3 \<le> 3" by (rule word_and_le1)
  then have "unat (x AND 3) \<le> 3" by (simp add: word_le_nat_alt)
  then consider "unat (x AND 3) = 0" | "unat (x AND 3) = 1" | "unat (x AND 3) = 2"
    | "unat (x AND 3) = 3" by linarith
  then show ?thesis
    by cases (simp_all add: word_unat_eq_iff)
qed

lemma message_bytes:
  "43 \<le> slice_len d \<Longrightarrow> take 8 (drop 35 (backing d)) = take 8 (drop 35 (message d))"
  by (simp add: message_def drop_take min_def)

lemma make_tweak_1:
  assumes "43 \<le> slice_len d" "slice_len d \<le> length (backing d)"
  shows "make_tweak st d 1 =
           Inr (write_at (replicate 8 0) 0 (xorWords (drop 192 st) (take 8 (drop 35 (message d)))))"
  using assms by (simp add: make_tweak_def message_bytes [OF assms(1)])

lemma Cache_Sum_fresh:
  assumes "length (scratchpad c) = 2097152"
  shows "Cache_Sum P c m v = Cache_Sum P new_Cache m v"
proof -
  have eq: "sum_core P (scratchpad c) st tw v = sum_core P (scratchpad new_Cache) st tw v"
    for st tw
    by (rule sum_core_fresh) (simp_all add: assms new_Cache_def)
  show ?thesis unfolding Cache_Sum_def eq by (rule refl)
qed

lemma Cache_Sum_scratchpad_length:
  "Cache_Sum P c m v = Inr r \<Longrightarrow> length (scratchpad (cache_after r)) = length (scratchpad c)"
  by (auto simp add: Cache_Sum_def Let_def split: sum.splits)

text \<open>
  C4. For every message and every variant of 2 or more, \<open>Sum\<close> returns what it returns for
  variant 0 on that message (digest, and the cache and message left behind), and so does
  \<open>Cache.Sum\<close> on any cache; neither call panics. No branch of the code is taken for
  these variants that is not taken for variant 0.
\<close>

theorem variant_ge_2_as_variant_0:
  assumes "2 \<le> variant"
  shows "Sum P data variant = Sum P data 0 \<and>
         Cache_Sum P cache data variant = Cache_Sum P cache data 0 \<and>
         (\<exists>r. Sum P data variant = Inr r)"
proof -
  have v: "variant \<noteq> 1" using assms by simp
  have "Cache_Sum P c data variant = Cache_Sum P c data 0" for c
    by (simp add: Cache_Sum_def make_tweak_not_1 v sum_core_variant [OF v, of P _ _ _ "replicate 8 0"])
  moreover have "\<exists>r. Sum P data variant = Inr r"
    by (simp add: Sum_def Cache_Sum_def make_tweak_not_1 v Let_def)
  ultimately show ?thesis by (simp add: Sum_def)
qed

theorem variant_ge_2_as_variant_0_witness:
  "(2 :: int) \<le> 2 \<and>
   Sum example_externals (slice_of [0x4d, 0x6f, 0x6e]) 2 =
   Sum example_externals (slice_of [0x4d, 0x6f, 0x6e]) 0"
  using variant_ge_2_as_variant_0 [of 2 example_externals "slice_of [0x4d, 0x6f, 0x6e]"]
  by simp

text \<open>
  C7. When \<open>Cache.Sum\<close> does not panic, the state it leaves in the cache is the Keccak
  permutation of the state after the result calculation, and the selector is byte 0 of
  that permuted state, masked with 3. The digest returned is, for selector 0, 1, 2 and 3,
  the output of BLAKE-256, Groestl-256, JH-256 and Skein-256 on the whole permuted state,
  unchanged. With a permutation that yields 200 bytes and hashes that yield 32 bytes, the
  state hashed has 200 bytes and the result 32.
\<close>

theorem Sum_finalizer_dispatch:
  assumes pre: "variant = 1 \<longrightarrow> 43 \<le> length (backing data)"
    and len: "\<forall>x. length (sha3_Keccak1600Permute P x) = 200 \<and>
                  length (blake256_Sum P x) = 32 \<and> length (groestl_Sum256 P x) = 32 \<and>
                  length (jh_Sum256 P x) = 32 \<and> length (skein_Sum256 P x) = 32"
  shows "\<exists>tweak r.
           make_tweak (sha3_Keccak1600State P (message data)) data variant = Inr tweak \<and>
           Cache_Sum P cache data variant = Inr r \<and>
           (let st = sha3_Keccak1600Permute P
                       (finalState (sum_core P (scratchpad cache)
                          (sha3_Keccak1600State P (message data)) tweak variant));
                sel = st ! 0 AND 0x03
            in finalState (cache_after r) = st \<and> length st = 200 \<and>
               (sel = 0 \<or> sel = 1 \<or> sel = 2 \<or> sel = 3) \<and>
               (sel = 0 \<longrightarrow> digest r = blake256_Sum P st) \<and>
               (sel = 1 \<longrightarrow> digest r = groestl_Sum256 P st) \<and>
               (sel = 2 \<longrightarrow> digest r = jh_Sum256 P st) \<and>
               (sel = 3 \<longrightarrow> digest r = skein_Sum256 P st) \<and>
               length (digest r) = 32)"
proof -
  have "\<exists>tweak. make_tweak (sha3_Keccak1600State P (message data)) data variant = Inr tweak"
    using pre by (simp add: make_tweak_def Let_def)
  then obtain tweak
    where tw: "make_tweak (sha3_Keccak1600State P (message data)) data variant = Inr tweak" ..
  have fl: "length (finalizer P st) = 32" for st
    using len by (simp add: finalizer_def Let_def)
  show ?thesis
    using tw and_3_cases fl len
    by (auto simp add: Cache_Sum_def Let_def finalizer_def)
qed

theorem Sum_finalizer_dispatch_witness:
  "\<exists>r. Cache_Sum example_externals new_Cache (slice_of [0x48, 0x65]) 0 = Inr r \<and>
       length (finalState (cache_after r)) = 200 \<and> length (digest r) = 32"
proof -
  have h1: "(0 :: int) = 1 \<longrightarrow> 43 \<le> length (backing (slice_of [0x48, 0x65]))" by simp
  have h2: "\<forall>x. length (sha3_Keccak1600Permute example_externals x) = 200 \<and>
        length (blake256_Sum example_externals x) = 32 \<and>
        length (groestl_Sum256 example_externals x) = 32 \<and>
        length (jh_Sum256 example_externals x) = 32 \<and>
        length (skein_Sum256 example_externals x) = 32"
    by (simp add: example_externals_def min_def)
  from Sum_finalizer_dispatch [OF h1 h2, of new_Cache] show ?thesis
    by (auto simp add: Let_def)
qed

text \<open>
  C8. With variant 1 and a message of at least 43 bytes, the slice \<open>data[35:43]\<close> lies
  inside the message, the tweak is the XOR of these eight bytes with bytes 192 to 199 of
  the absorbed state, and the call returns. Beyond the absorption by Keccak the result
  depends on the message through these eight bytes only: two messages with the same
  absorbed state and the same bytes 35 to 42 give the same digest. Every pass of the loop
  is made with that one tweak. For a message shorter than 43 bytes the eight bytes are not
  all in the message, and the call panics when the capacity of the slice is below 43 too.
\<close>

theorem variant_1_tweak:
  assumes "43 \<le> slice_len d" "slice_len d \<le> length (backing d)"
  shows "make_tweak st d 1 =
           Inr (write_at (replicate 8 0) 0 (xorWords (drop 192 st) (take 8 (drop 35 (message d))))) \<and>
         (length st = 200 \<longrightarrow>
            make_tweak st d 1 = Inr (map2 (XOR) (drop 192 st) (take 8 (drop 35 (message d))))) \<and>
         (\<exists>r. Cache_Sum P c d 1 = Inr r) \<and>
         (\<forall>d'. 43 \<le> slice_len d' \<and> slice_len d' \<le> length (backing d') \<and>
               sha3_Keccak1600State P (message d') = sha3_Keccak1600State P (message d) \<and>
               take 8 (drop 35 (message d')) = take 8 (drop 35 (message d)) \<longrightarrow>
               map_sum id digest (Cache_Sum P c d' 1) = map_sum id digest (Cache_Sum P c d 1)) \<and>
         (\<forall>tweak s. memory_hard_loop P 1 tweak 0 s = (mix_iter P 1 tweak ^^ 524288) s) \<and>
         (\<forall>e. slice_len e < 43 \<longrightarrow>
              length (take 8 (drop 35 (message e))) < 8 \<and>
              (length (backing e) < 43 \<longrightarrow> Cache_Sum P c e 1 = Inl SliceBoundsOutOfRange))"
proof -
  have cap: "43 \<le> length (backing d)" using assms by simp
  have mk: "make_tweak st d 1 =
              Inr (write_at (replicate 8 0) 0 (xorWords (drop 192 st) (take 8 (drop 35 (message d)))))"
    for st
    by (rule make_tweak_1 [OF assms])
  have l8: "length (take 8 (drop 35 (message d))) = 8"
    using assms by (simp add: message_def)
  have mk200: "make_tweak st d 1 = Inr (map2 (XOR) (drop 192 st) (take 8 (drop 35 (message d))))"
    if "length st = 200" for st
    using that l8 by (simp add: mk write_at_def xorWords_def)
  have ret: "\<exists>r. Cache_Sum P c d 1 = Inr r"
    by (simp add: Cache_Sum_def mk Let_def)
  have ni: "map_sum id digest (Cache_Sum P c d' 1) = map_sum id digest (Cache_Sum P c d 1)"
    if "43 \<le> slice_len d'" "slice_len d' \<le> length (backing d')"
      "sha3_Keccak1600State P (message d') = sha3_Keccak1600State P (message d)"
      "take 8 (drop 35 (message d')) = take 8 (drop 35 (message d))" for d'
  proof -
    have "make_tweak st d' 1 = make_tweak st d 1" for st
      by (simp only: mk make_tweak_1 [OF that(1,2)] that(4))
    then show ?thesis
      using that(3) by (simp add: Cache_Sum_def Let_def split: sum.splits)
  qed
  have short: "length (take 8 (drop 35 (message e))) < 8 \<and>
               (length (backing e) < 43 \<longrightarrow> Cache_Sum P c e 1 = Inl SliceBoundsOutOfRange)"
    if "slice_len e < 43" for e
    using that by (auto simp add: message_def Cache_Sum_def make_tweak_def Let_def)
  show ?thesis
    using mk mk200 ret ni short by (simp add: memory_hard_loop_funpow)
qed

theorem variant_1_tweak_witness:
  "43 \<le> slice_len (slice_of example_message_v1) \<and>
   slice_len (slice_of example_message_v1) \<le> length (backing (slice_of example_message_v1)) \<and>
   make_tweak (replicate 200 0xff) (slice_of example_message_v1) 1 =
     Inr [0x8c, 0xdf, 0x90, 0x99, 0xdf, 0x96, 0x91, 0x8f]"
proof -
  have h1: "43 \<le> slice_len (slice_of example_message_v1)"
    by (simp add: slice_of_def example_message_v1_def)
  have h2: "slice_len (slice_of example_message_v1) \<le> length (backing (slice_of example_message_v1))"
    by (simp add: slice_of_def)
  have "take 8 (drop 35 (message (slice_of example_message_v1))) =
          [0x73, 0x20, 0x6f, 0x66, 0x20, 0x69, 0x6e, 0x70]"
    by (simp add: message_def slice_of_def example_message_v1_def)
  moreover have "drop 192 (replicate 200 (0xff :: byte)) = replicate 8 0xff"
    by simp
  moreover have "replicate 8 (0xff :: byte) = [0xff, 0xff, 0xff, 0xff, 0xff, 0xff, 0xff, 0xff]"
    by (simp add: eval_nat_numeral)
  ultimately show ?thesis
    using variant_1_tweak [OF h1 h2, of "replicate 200 0xff" example_externals new_Cache] h1 h2
    by (simp add: write_at_def xorWords_def)
qed

text \<open>
  C9. On a cache whose scratchpad has its \<open>2^21\<close> bytes, whatever the cache contains, a
  call \<open>Sum(m1, v1)\<close> gives the digest (or the panic) that \<open>Sum(m1, v1)\<close> gives on a
  fresh cache. If it returns, the cache it leaves is again such a cache, and a second call
  \<open>Sum(m2, v2)\<close> on it gives the digest (or the panic) of \<open>Sum(m2, v2)\<close> on a fresh cache.
  The fresh cache itself is such a cache.
\<close>

theorem Cache_reuse:
  assumes "length (scratchpad c) = 2097152"
  shows "map_sum id digest (Cache_Sum P c m1 v1) = map_sum id digest (Sum P m1 v1) \<and>
         (\<forall>r1. Cache_Sum P c m1 v1 = Inr r1 \<longrightarrow>
            length (scratchpad (cache_after r1)) = 2097152 \<and>
            map_sum id digest (Cache_Sum P (cache_after r1) m2 v2) =
            map_sum id digest (Sum P m2 v2))"
proof -
  have l: "length (scratchpad (cache_after r1)) = 2097152"
    if "Cache_Sum P c m1 v1 = Inr r1" for r1
    using Cache_Sum_scratchpad_length [OF that] assms by simp
  show ?thesis
    using l assms by (simp add: Sum_def Cache_Sum_fresh)
qed

theorem Cache_reuse_witness:
  "length (scratchpad new_Cache) = 2097152 \<and>
   Cache_Sum example_externals new_Cache (slice_of [0x48, 0x65]) 0 =
     Inr (projr (Cache_Sum example_externals new_Cache (slice_of [0x48, 0x65]) 0)) \<and>
   map_sum id digest
     (Cache_Sum example_externals
        (cache_after (projr (Cache_Sum example_externals new_Cache (slice_of [0x48, 0x65]) 0)))
        (slice_of example_message_v1) 1) =
   map_sum id digest (Sum example_externals (slice_of example_message_v1) 1)"
proof -
  have h0: "length (scratchpad new_Cache) = 2097152"
    by (simp add: new_Cache_def)
  have "\<exists>r. Cache_Sum example_externals new_Cache (slice_of [0x48, 0x65]) 0 = Inr r"
    by (simp add: Cache_Sum_def make_tweak_not_1 Let_def)
  then have h: "Cache_Sum example_externals new_Cache (slice_of [0x48, 0x65]) 0 =
     Inr (projr (Cache_Sum example_externals new_Cache (slice_of [0x48, 0x65]) 0))"
    by auto
  from Cache_reuse [OF h0, of example_externals "slice_of [0x48, 0x65]" 0
                      "slice_of example_message_v1" 1] h h0
  show ?thesis by blast
qed

subsection \<open>The message after the call\<close>

lemma length_fst_CnExpandKey [simp]: "length (fst (CnExpandKey key rkeys)) = length rkeys"
  by (simp add: CnExpandKey_def Let_def)

lemma snd_CnExpandKey:
  "length rkeys = 160 \<Longrightarrow>
     snd (CnExpandKey key rkeys) = drop 160 (fips_round_keys (mem_of key) 11)"
  by (simp only: CnExpandKey_def Let_def snd_conv CnExpandKeyAsm_eleventh_round_key)

lemma length_fips_round_keys_11 [simp]: "length (fips_round_keys key 11) = 176"
proof -
  have "length (map (CnExpandKeyAsm key (\<lambda>_. 0)) [0..<16 * 11]) = 176" by simp
  then show ?thesis by (simp only: CnExpandKeyAsm_round_keys [of 11])
qed

lemma behind_rkeys_sum_core:
  "behind_rkeys (sum_core P pad0 st tweak variant) =
     drop 160 (fips_round_keys (mem_of (take 32 (drop 32 st))) 11)"
proof -
  have "snd (CnExpandKey k2 (fst (CnExpandKey k1 (replicate 160 0)))) =
        drop 160 (fips_round_keys (mem_of k2) 11)" for k1 k2
    by (rule snd_CnExpandKey) simp
  then show ?thesis
    by (simp add: sum_core_def Let_def split_beta)
qed

lemma data_after_Cache_Sum:
  assumes "Cache_Sum P cache data variant = Inr r"
  shows "data_after r =
           store_behind (rkeys_neighbour P data)
             (drop 160 (fips_round_keys
                (mem_of (take 32 (drop 32 (sha3_Keccak1600State P (message data))))) 11))
             data"
  using assms
  by (auto simp add: Cache_Sum_def Let_def behind_rkeys_sum_core split: sum.splits)

lemma store_behind_frame:
  "slice_len (store_behind nb bs d) = slice_len d \<and>
   length (backing (store_behind nb bs d)) = length (backing d) \<and>
   (\<forall>j < length (backing d).
      (\<forall>k. nb = Some k \<longrightarrow> int j < k \<or> k + int (length bs) \<le> int j) \<longrightarrow>
      backing (store_behind nb bs d) ! j = backing d ! j)"
  by (cases nb) (auto simp add: store_behind_def)

lemma store_behind_None [simp]: "store_behind None bs d = d"
  by (simp add: store_behind_def)



lemma Cache_Sum_message_frame:
  assumes "Cache_Sum P cache data variant = Inr r"
  shows "slice_len (data_after r) = slice_len data \<and>
         length (backing (data_after r)) = length (backing data) \<and>
         (rkeys_neighbour P data = None \<longrightarrow> data_after r = data) \<and>
         (\<forall>j < length (backing data).
            (\<forall>k. rkeys_neighbour P data = Some k \<longrightarrow> int j < k \<or> k + 16 \<le> int j) \<longrightarrow>
            backing (data_after r) ! j = backing data ! j)"
  using store_behind_frame
          [of "rkeys_neighbour P data"
              "drop 160 (fips_round_keys
                 (mem_of (take 32 (drop 32 (sha3_Keccak1600State P (message data))))) 11)" data]
  by (auto simp add: data_after_Cache_Sum [OF assms])



end
